theory Spec2Isabelle
  imports Main "HOL-Library.Sublist"
begin

section \<open>Python string operations used by \<open>server.py\<close>\<close>

text \<open>
  Python \<open>str\<close> and \<open>bytes\<close> values are character lists. Only the operations that
  \<open>server.py\<close> applies to them are modelled: \<open>sub in s\<close>, \<open>s.split(sep)\<close>,
  \<open>s.replace(c, '')\<close>, \<open>sep.join(xs)\<close>, \<open>s.translate(table)\<close>, \<open>str(n)\<close> and
  \<open>'%06d' % n\<close>.
\<close>

type_synonym bytes = "char list"

text \<open>\<open>sub in s\<close>: \<open>sub\<close> occurs in \<open>s\<close> as a contiguous substring.\<close>

fun py_in :: "string \<Rightarrow> string \<Rightarrow> bool" where
  "py_in sub [] = (sub = [])"
| "py_in sub (c # cs) = (prefix sub (c # cs) \<or> py_in sub cs)"

text \<open>
  \<open>s.split(sep)\<close>: scan from the left, cutting at every occurrence of \<open>sep\<close>, the
  occurrences not overlapping. \<open>acc\<close> holds the current piece, reversed. The source only
  splits at the constant \<open>'name='\<close>; for an empty separator (where Python raises) the
  function below never cuts.
\<close>

function split_from :: "string \<Rightarrow> string \<Rightarrow> string \<Rightarrow> string list" where
  "split_from sep acc [] = [rev acc]"
| "split_from sep acc (c # cs) =
     (if sep \<noteq> [] \<and> prefix sep (c # cs)
      then rev acc # split_from sep [] (drop (length sep) (c # cs))
      else split_from sep (c # acc) cs)"
  by pat_completeness auto
termination
  by (relation "measure (\<lambda>(sep, acc, s). length s)") auto

definition py_split :: "string \<Rightarrow> string \<Rightarrow> string list" where
  "py_split s sep = split_from sep [] s"

text \<open>\<open>s.replace(c, '')\<close> for a one-character \<open>c\<close>.\<close>

definition py_remove :: "char \<Rightarrow> string \<Rightarrow> string" where
  "py_remove c s = filter (\<lambda>x. x \<noteq> c) s"

text \<open>\<open>sep.join(xs)\<close>.\<close>

fun py_join :: "string \<Rightarrow> string list \<Rightarrow> string" where
  "py_join sep [] = []"
| "py_join sep [x] = x"
| "py_join sep (x # y # ys) = x @ sep @ py_join sep (y # ys)"

text \<open>
  \<open>dict.fromkeys(punct)\<close> maps every key to \<open>None\<close>; \<open>str.maketrans\<close> of a dictionary
  keeps it (keyed by code point, here by the character); \<open>s.translate(table)\<close> drops a
  character mapped to \<open>None\<close>, replaces one mapped to a string and keeps one that is not
  a key.
\<close>

definition fromkeys :: "'k list \<Rightarrow> ('k \<rightharpoonup> 'v option)" where
  "fromkeys ks = map_of (map (\<lambda>k. (k, None)) ks)"

definition maketrans :: "(char \<rightharpoonup> string option) \<Rightarrow> (char \<rightharpoonup> string option)" where
  "maketrans d = d"

definition translate :: "string \<Rightarrow> (char \<rightharpoonup> string option) \<Rightarrow> string" where
  "translate s table =
     concat (map (\<lambda>c. case table c of
                          None \<Rightarrow> [c]
                        | Some None \<Rightarrow> []
                        | Some (Some r) \<Rightarrow> r) s)"

text \<open>\<open>str(n)\<close> of a natural number, and \<open>'%06d' % n\<close>.\<close>

definition digit_char :: "nat \<Rightarrow> char" where
  "digit_char d = ''0123456789'' ! d"

function str_nat :: "nat \<Rightarrow> string" where
  "str_nat n = (if n < 10 then [digit_char n] else str_nat (n div 10) @ [digit_char (n mod 10)])"
  by pat_completeness auto
termination
  by (relation "measure id") auto

declare str_nat.simps [simp del]

definition fmt_06d :: "nat \<Rightarrow> string" where
  "fmt_06d n = (let s = str_nat n in replicate (6 - length s) (CHR ''0'') @ s)"

text \<open>
  \<open>os.path.join(a, b)\<close> on POSIX: an absolute \<open>b\<close> replaces \<open>a\<close>, otherwise \<open>b\<close> is
  appended after one separator.
\<close>

definition path_join :: "string \<Rightarrow> string \<Rightarrow> string" where
  "path_join a b =
     (if prefix ''/'' b then b
      else if a = [] \<or> last a = CHR ''/'' then a @ b
      else a @ ''/'' @ b)"

section \<open>Messages\<close>

text \<open>
  A parsed message (\<open>email.message.Message\<close>) is a tree: every node carries headers, a
  multipart node carries its sub-parts. The header record holds what the source reads
  from a node:
  \<^item> \<open>content_type\<close>: the value of \<open>get_content_type()\<close>;
  \<^item> \<open>content_type_header\<close>: the value of \<open>get('Content-Type')\<close>, \<open>None\<close> when absent;
  \<^item> \<open>filename\<close>: the value of \<open>get_filename()\<close>, which is the \<open>filename\<close> parameter
    of the Content-Disposition header, else the \<open>name\<close> parameter of the Content-Type
    header, else \<open>None\<close>;
  \<^item> \<open>content_disposition\<close>: the value of \<open>get('Content-Disposition')\<close>;
  \<^item> \<open>payload\<close>: the value of \<open>get_payload(decode=True)\<close>, \<open>None\<close> when the call raises;
  \<^item> \<open>date\<close>, \<open>from_hdr\<close>, \<open>subject\<close>: the values of \<open>mail['date']\<close>, \<open>mail['From']\<close>
    and \<open>mail['Subject']\<close>.
\<close>

record part_hdr =
  content_type :: string
  content_type_header :: "string option"
  filename :: "string option"
  content_disposition :: "string option"
  payload :: "bytes option"
  date :: "string option"
  from_hdr :: "string option"
  subject :: "string option"

datatype part = Part (hdr: part_hdr) (subparts: "part list")

text \<open>\<open>get_content_maintype()\<close> is \<open>get_content_type().split('/')[0]\<close>.\<close>

definition get_content_maintype :: "part \<Rightarrow> string" where
  "get_content_maintype p = takeWhile (\<lambda>c. c \<noteq> CHR ''/'') (content_type (hdr p))"

text \<open>\<open>walk()\<close>: the node itself, then the walk of every sub-part, in order.\<close>

fun walk :: "part \<Rightarrow> part list" where
  "walk (Part h ps) = Part h ps # concat (map walk ps)"

section \<open>External collaborators\<close>

text \<open>
  What the source calls and does not define is a parameter of the model:
  \<^item> \<open>charset_decoder\<close>: \<open>lostphotosfound.utils._charset_decoder\<close> on a string;
  \<^item> \<open>parsedate\<close>: the first six fields of \<open>email.utils.parsedate\<close>, \<open>None\<close> when the
    date does not parse;
  \<^item> \<open>parseaddr\<close>: the address component of \<open>email.utils.parseaddr\<close>;
  \<^item> \<open>sha1_hexdigest\<close>: \<open>hashlib.sha1(payload).hexdigest()\<close>;
  \<^item> \<open>types_map\<close>: \<open>mimetypes.types_map\<close>, in iteration order;
  \<^item> \<open>userdir\<close>: \<open>os.path.expanduser('~/LostPhotosFound')\<close>;
  \<^item> \<open>gmail_search\<close>: the handles the search returns, \<open>None\<close> when it raises;
  \<^item> \<open>fetch_msgid\<close>: for a handle, the \<open>X-GM-MSGID\<close> values of the entries of the
    fetched dictionary, as strings, \<open>None\<close> when the fetch raises;
  \<^item> \<open>fetch_rfc822\<close>: for a handle, the parsed messages of the entries of the fetched
    dictionary, \<open>None\<close> when the fetch raises;
  \<^item> \<open>write_fails\<close>: the paths at which \<open>imagefile.write\<close> raises;
  \<^item> \<open>cleanup_raises\<close>: the calls of \<open>_cleanup\<close> that raise.
\<close>

datatype cleanup_call = IndexSync | IndexClose | HashesSync | HashesClose | CloseFolder | Logout

record env =
  charset_decoder :: "string \<Rightarrow> string"
  parsedate :: "string \<Rightarrow> (nat \<times> nat \<times> nat \<times> nat \<times> nat \<times> nat) option"
  parseaddr :: "string \<Rightarrow> string"
  sha1_hexdigest :: "bytes \<Rightarrow> string"
  types_map :: "(string \<times> string) list"
  userdir :: string
  gmail_search :: "string \<Rightarrow> nat list option"
  fetch_msgid :: "nat \<Rightarrow> string list option"
  fetch_rfc822 :: "nat \<Rightarrow> part list option"
  write_fails :: "string \<Rightarrow> bool"
  cleanup_raises :: "cleanup_call \<Rightarrow> bool"

section \<open>The state of a \<open>Server\<close> object and of the disk\<close>

text \<open>
  A \<open>shelve\<close> store opened with \<open>writeback=True\<close>: its entries, whether every
  assignment since the last \<open>sync()\<close> has been flushed, and whether it has been closed.
\<close>

record shelf =
  entries :: "string \<rightharpoonup> string"
  synced :: bool
  is_closed :: bool

definition shelf_set :: "shelf \<Rightarrow> string \<Rightarrow> string \<Rightarrow> shelf" where
  "shelf_set s k v = s\<lparr>entries := (entries s)(k \<mapsto> v), synced := False\<rparr>"

definition shelf_keys :: "shelf \<Rightarrow> string set" where
  "shelf_keys s = dom (entries s)"

definition shelf_sync :: "shelf \<Rightarrow> shelf" where
  "shelf_sync s = s\<lparr>synced := True\<rparr>"

definition shelf_close :: "shelf \<Rightarrow> shelf" where
  "shelf_close s = s\<lparr>synced := True, is_closed := True\<rparr>"

text \<open>
  The attributes of \<open>self\<close> (\<open>seq\<close> is \<open>None\<close> while \<open>hasattr(self, "seq")\<close> is false),
  the mailbox session's two flags, and the part of the file system the source touches:
  the regular files with their contents and the directories. A \<open>search\<close> argument that
  is \<open>None\<close> or empty is the empty string (both are falsy). \<open>os.makedirs\<close> and
  \<open>open(saved, 'wb')\<close> are taken to succeed; the failures the source names (search,
  fetch, decoding, writing), the exceptions its own expressions raise and a raising call
  of \<open>_cleanup\<close> are modelled.
\<close>

record server =
  seq :: "nat option"
  s_index :: shelf
  s_hashes :: shelf
  s_search :: string
  s_use_index :: bool
  s_use_folders :: bool
  s_username :: string
  folder_selected :: bool
  logged_in :: bool
  files :: "string \<rightharpoonup> bytes"
  dirs :: "string set"

text \<open>
  Every exception the source raises, or lets escape, is an error value; a failed
  operation returns the error together with the state at the moment of the raise.
\<close>

datatype error =
    SearchFailure
  | MsgIdFetchFailure
  | BodyFetchFailure
  | DownloadFailure string
  | WriteFailure string
  | IndexError
  | AttributeError
  | TypeError
  | CleanupFailure cleanup_call

type_synonym 'a result = "(error \<times> server) + 'a"

section \<open>\<open>Server._filter_messages\<close>\<close>

text \<open>
  The extensions of \<open>types_map\<close> whose type contains \<open>image\<close>, dots removed, joined by
  \<open>' OR '\<close>, inside \<open>has:attachment filename:(...)\<close>.
\<close>

definition mimelist :: "env \<Rightarrow> string" where
  "mimelist e =
     py_join '' OR ''
       (map (\<lambda>(ext, ty). py_remove (CHR ''.'') ext)
          (filter (\<lambda>(ext, ty). py_in ''image'' ty) (types_map e)))"

definition image_filter :: "env \<Rightarrow> string" where
  "image_filter e = ''has:attachment filename:('' @ mimelist e @ '')''"

text \<open>The criteria handed to \<open>gmail_search\<close>; a non-empty \<open>self._search\<close> is truthy.\<close>

definition criteria :: "env \<Rightarrow> server \<Rightarrow> string" where
  "criteria e st =
     (if s_search st \<noteq> [] then s_search st @ '' '' @ image_filter e
      else image_filter e)"

definition filter_messages :: "env \<Rightarrow> server \<Rightarrow> nat list result" where
  "filter_messages e st =
     (case gmail_search e (criteria e st) of
        None \<Rightarrow> Inl (SearchFailure, st)
      | Some messages \<Rightarrow> Inr messages)"

section \<open>\<open>Server._save_part\<close>\<close>

text \<open>The constant \<open>punct\<close> of the source: \<open>!"#$&'*+/;<>?[\]^`{|}~\<close>.\<close>

definition punct :: string where
  "punct = ''!'' @ [CHR 0x22] @ ''#$&'' @ [CHR 0x27] @ ''*+/;<>?['' @ [CHR 0x5C] @
           '']^'' @ [CHR 0x60] @ ''{|}~''"

definition sanitize :: "string \<Rightarrow> string" where
  "sanitize header_filename = translate header_filename (maketrans (fromkeys punct))"

text \<open>
  Lines 154 to 171: the counter is created on first use; the declared name, or
  \<open>__unnamed__\<close> when there is none, goes through the decoder; a decoded name that
  contains \<open>None\<close> is replaced by the text after the last \<open>name=\<close> of the Content-Type
  header, double quotes removed (\<open>None.split\<close> raises when the header is absent).
  Otherwise \<open>header_filename[0][0]\<close> is read: indexing an empty string raises, and on a
  non-empty one \<open>header_filename[0]\<close> is the one-character string \<open>h0\<close> and
  \<open>header_filename[0][0]\<close> is \<open>h0\<close> again, which is tested for being empty (it is never
  \<open>None\<close>).
\<close>

definition resolve_filename :: "env \<Rightarrow> server \<Rightarrow> part \<Rightarrow> (string \<times> server) result" where
  "resolve_filename e st part =
     (let st0 = (if seq st = None then st\<lparr>seq := Some 0\<rparr> else st);
          name = (case filename (hdr part) of None \<Rightarrow> ''__unnamed__'' | Some n \<Rightarrow> n);
          header_filename = charset_decoder e name
      in if py_in ''None'' header_filename then
           (case content_type_header (hdr part) of
              None \<Rightarrow> Inl (AttributeError, st0)
            | Some ct \<Rightarrow> Inr (py_remove (CHR 0x22) (last (py_split ct ''name='')), st0))
         else
           (case header_filename of
              [] \<Rightarrow> Inl (IndexError, st0)
            | c # cs \<Rightarrow>
                (let h0 = [c]; h00 = take 1 h0
                 in if h00 = [] then
                      Inr (''attachment-'' @ fmt_06d (the (seq st0)) @ ''.data'',
                           st0\<lparr>seq := Some (the (seq st0) + 1)\<rparr>)
                    else Inr (header_filename, st0))))"

text \<open>
  Lines 179 to 185: the date prefix. A missing Date header reaches the decoder as
  \<open>None\<close> and an unparsable date makes \<open>parsedate\<close> return \<open>None\<close>, which is then
  subscripted: both raise.
\<close>

definition header_date :: "env \<Rightarrow> part \<Rightarrow> string option" where
  "header_date e mail =
     (case date (hdr mail) of
        None \<Rightarrow> None
      | Some d \<Rightarrow>
          (case parsedate e (charset_decoder e d) of
             None \<Rightarrow> None
           | Some (y, mo, dd, h, mi, s) \<Rightarrow>
               Some (str_nat y @ ''-'' @ str_nat mo @ ''-'' @ str_nat dd @ ''_'' @
                     str_nat h @ ''-'' @ str_nat mi @ ''-'' @ str_nat s @ ''_'')))"

text \<open>Lines 189 to 195: the directory of the account, or of the sender inside it.\<close>

definition savepath :: "env \<Rightarrow> server \<Rightarrow> string \<Rightarrow> string" where
  "savepath e st sender =
     (let p = path_join (userdir e) (s_username st)
      in if s_use_folders st then path_join p sender else p)"

text \<open>
  Lines 203 to 223. \<open>open(saved, 'wb')\<close> creates the empty file before anything else
  happens; a failure to decode or to write leaves it behind; a payload whose digest is
  in the store has its file removed again.
\<close>

definition store_payload :: "env \<Rightarrow> server \<Rightarrow> part \<Rightarrow> string \<Rightarrow> server result" where
  "store_payload e st part saved =
     (if saved \<notin> dom (files st) then
        (let st1 = st\<lparr>files := (files st)(saved \<mapsto> [])\<rparr>
         in case payload (hdr part) of
              None \<Rightarrow> Inl (DownloadFailure saved, st1)
            | Some pl \<Rightarrow>
                (let payload_hash = sha1_hexdigest e pl
                 in if payload_hash \<notin> shelf_keys (s_hashes st1) then
                      (if write_fails e saved then Inl (WriteFailure saved, st1)
                       else Inr (st1\<lparr>files := (files st1)(saved \<mapsto> pl),
                                     s_hashes := shelf_set (s_hashes st1) payload_hash payload_hash\<rparr>))
                    else Inr (st1\<lparr>files := (files st1)(saved := None)\<rparr>)))
      else Inr st)"

text \<open>
  Lines 154 to 203, up to the test of \<open>os.path.isfile(saved)\<close>: the name, the date
  prefix, the directory (created when it is not there) and the destination path.
\<close>

definition destination ::
  "env \<Rightarrow> server \<Rightarrow> part \<Rightarrow> part \<Rightarrow> string \<Rightarrow> (string \<times> server) result" where
  "destination e st part mail sender =
     (case resolve_filename e st part of
        Inl err \<Rightarrow> Inl err
      | Inr (header_filename, st1) \<Rightarrow>
          (case header_date e mail of
             None \<Rightarrow> Inl (TypeError, st1)
           | Some hdate \<Rightarrow>
               (let fname = hdate @ sanitize header_filename;
                    sp = savepath e st1 sender;
                    st2 = (if sp \<notin> dirs st1 then st1\<lparr>dirs := insert sp (dirs st1)\<rparr> else st1)
                in Inr (path_join sp fname, st2))))"

definition save_part :: "env \<Rightarrow> server \<Rightarrow> part \<Rightarrow> part \<Rightarrow> string \<Rightarrow> server result" where
  "save_part e st part mail sender =
     (case destination e st part mail sender of
        Inl err \<Rightarrow> Inl err
      | Inr (saved, st2) \<Rightarrow> store_payload e st2 part saved)"

section \<open>\<open>Server._cleanup\<close> and \<open>Server.lostphotosfound\<close>\<close>

text \<open>
  \<open>_cleanup\<close> (lines 228 to 233) is six calls in a row, none of them guarded: the two
  stores are flushed and closed, the folder is closed, the session is logged out. A call
  that raises ends \<open>_cleanup\<close> there, with the calls before it done and the later ones
  not made.
\<close>

fun apply_call :: "cleanup_call \<Rightarrow> server \<Rightarrow> server" where
  "apply_call IndexSync st = st\<lparr>s_index := shelf_sync (s_index st)\<rparr>"
| "apply_call IndexClose st = st\<lparr>s_index := shelf_close (s_index st)\<rparr>"
| "apply_call HashesSync st = st\<lparr>s_hashes := shelf_sync (s_hashes st)\<rparr>"
| "apply_call HashesClose st = st\<lparr>s_hashes := shelf_close (s_hashes st)\<rparr>"
| "apply_call CloseFolder st = st\<lparr>folder_selected := False\<rparr>"
| "apply_call Logout st = st\<lparr>logged_in := False\<rparr>"

definition cleanup_order :: "cleanup_call list" where
  "cleanup_order = [IndexSync, IndexClose, HashesSync, HashesClose, CloseFolder, Logout]"

fun cleanup_calls :: "env \<Rightarrow> server \<Rightarrow> cleanup_call list \<Rightarrow> server result" where
  "cleanup_calls e st [] = Inr st"
| "cleanup_calls e st (c # cs) =
     (if cleanup_raises e c then Inl (CleanupFailure c, st)
      else cleanup_calls e (apply_call c st) cs)"

definition cleanup :: "env \<Rightarrow> server \<Rightarrow> server result" where
  "cleanup e st = cleanup_calls e st cleanup_order"

text \<open>
  The body of the loop over \<open>mail.walk()\<close> (lines 279 to 290): a multipart container is
  passed over; the test of the Content-Disposition header has the empty body \<open>pass\<close>; a
  part whose content type does not contain \<open>image/\<close> is passed over; any other part
  goes to \<open>_save_part\<close>.
\<close>

definition handle_part :: "env \<Rightarrow> server \<Rightarrow> part \<Rightarrow> string \<Rightarrow> part \<Rightarrow> server result" where
  "handle_part e st mail sender part =
     (if get_content_maintype part = ''multipart'' then Inr st
      else let st' = (if content_disposition (hdr part) = None then st else st)
           in if \<not> py_in ''image/'' (content_type (hdr part)) then Inr st'
              else save_part e st' part mail sender)"

fun walk_loop :: "env \<Rightarrow> server \<Rightarrow> part \<Rightarrow> string \<Rightarrow> part list \<Rightarrow> server result" where
  "walk_loop e st mail sender [] = Inr st"
| "walk_loop e st mail sender (p # ps) =
     (case handle_part e st mail sender p of
        Inl err \<Rightarrow> Inl err
      | Inr st' \<Rightarrow> walk_loop e st' mail sender ps)"

text \<open>
  The body of the loop over \<open>msgdata\<close> (lines 258 to 293). The \<open>continue\<close> of line 261
  ends the iteration for a message that is not multipart. The From header goes through
  the decoder for the log line (a missing one reaches it as \<open>None\<close>); the Subject is
  only decoded when it is truthy. The log lines themselves are not modelled.
\<close>

definition handle_mail :: "env \<Rightarrow> server \<Rightarrow> string \<Rightarrow> part \<Rightarrow> server result" where
  "handle_mail e st msgid mail =
     (if get_content_maintype mail \<noteq> ''multipart'' then Inr st
      else
        (case from_hdr (hdr mail) of
           None \<Rightarrow> Inl (TypeError, st)
         | Some f \<Rightarrow>
             (let parsed = parseaddr e f;
                  sender = (if parsed = [] then ''unknown_sender'' else parsed)
              in case walk_loop e st mail sender (walk mail) of
                   Inl err \<Rightarrow> Inl err
                 | Inr st' \<Rightarrow> Inr (st'\<lparr>s_index := shelf_set (s_index st') msgid msgid\<rparr>))))"

fun data_loop :: "env \<Rightarrow> server \<Rightarrow> string \<Rightarrow> part list \<Rightarrow> server result" where
  "data_loop e st msgid [] = Inr st"
| "data_loop e st msgid (mail # mails) =
     (case handle_mail e st msgid mail of
        Inl err \<Rightarrow> Inl err
      | Inr st' \<Rightarrow> data_loop e st' msgid mails)"

text \<open>
  The body of the loop over \<open>messages\<close> (lines 241 to 293): \<open>keys[0]\<close> raises on an
  empty answer; a message whose identifier is in the index is skipped when the index is
  in use; a failing fetch of the body is not caught.
\<close>

definition handle_msg :: "env \<Rightarrow> server \<Rightarrow> nat \<Rightarrow> server result" where
  "handle_msg e st msg =
     (case fetch_msgid e msg of
        None \<Rightarrow> Inl (MsgIdFetchFailure, st)
      | Some [] \<Rightarrow> Inl (IndexError, st)
      | Some (msgid # _) \<Rightarrow>
          (if s_use_index st \<and> msgid \<in> shelf_keys (s_index st) then Inr st
           else
             (case fetch_rfc822 e msg of
                None \<Rightarrow> Inl (BodyFetchFailure, st)
              | Some msgdata \<Rightarrow> data_loop e st msgid msgdata)))"

fun msg_loop :: "env \<Rightarrow> server \<Rightarrow> nat list \<Rightarrow> server result" where
  "msg_loop e st [] = Inr st"
| "msg_loop e st (msg # msgs) =
     (case handle_msg e st msg of
        Inl err \<Rightarrow> Inl err
      | Inr st' \<Rightarrow> msg_loop e st' msgs)"

definition lostphotosfound :: "env \<Rightarrow> server \<Rightarrow> server result" where
  "lostphotosfound e st =
     (case filter_messages e st of
        Inl err \<Rightarrow> Inl err
      | Inr messages \<Rightarrow>
          (case msg_loop e st messages of
             Inl err \<Rightarrow> Inl err
           | Inr st' \<Rightarrow> cleanup e st'))"

text \<open>The state in which a call ends, whether it returns or raises.\<close>

definition final_state :: "server result \<Rightarrow> server" where
  "final_state r = (case r of Inl (err, st) \<Rightarrow> st | Inr st \<Rightarrow> st)"

text \<open>Whether an error was raised by a call of \<open>_cleanup\<close>.\<close>

definition raised_by_cleanup :: "error \<Rightarrow> bool" where
  "raised_by_cleanup err = (case err of CleanupFailure c \<Rightarrow> True | _ \<Rightarrow> False)"

section \<open>Predicates used in the statements\<close>

text \<open>
  \<open>flags_kept st st'\<close>: between \<open>st\<close> and \<open>st'\<close> neither store was closed or reopened,
  neither store was flushed (a store that is synced in \<open>st'\<close> was so in \<open>st\<close>), and the
  session is as it was. It holds as long as no call of \<open>_cleanup\<close> has been made in
  between.
\<close>

definition flags_kept :: "server \<Rightarrow> server \<Rightarrow> bool" where
  "flags_kept st st' \<longleftrightarrow>
     is_closed (s_index st') = is_closed (s_index st) \<and>
     is_closed (s_hashes st') = is_closed (s_hashes st) \<and>
     (synced (s_index st') \<longrightarrow> synced (s_index st)) \<and>
     (synced (s_hashes st') \<longrightarrow> synced (s_hashes st)) \<and>
     folder_selected st' = folder_selected st \<and>
     logged_in st' = logged_in st"

text \<open>
  \<open>flags_err st err st'\<close>: the error \<open>err\<close>, raised in \<open>st'\<close> by a step started in \<open>st\<close>,
  was not raised by a call of \<open>_cleanup\<close>, and the flags were kept.
\<close>

definition flags_err :: "server \<Rightarrow> error \<Rightarrow> server \<Rightarrow> bool" where
  "flags_err st err st' \<longleftrightarrow> \<not> raised_by_cleanup err \<and> flags_kept st st'"

text \<open>The state after all six calls of \<open>_cleanup\<close>.\<close>

definition after_cleanup :: "server \<Rightarrow> server" where
  "after_cleanup st = fold apply_call cleanup_order st"






text \<open>
  \<open>outcome QE R st r\<close>: a step from \<open>st\<close> that returns \<open>st'\<close> has \<open>R st st'\<close>, and one
  that raises \<open>err\<close> in \<open>st'\<close> has \<open>QE st err st'\<close>. \<open>step_ok QE R e\<close> collects what the
  loops of \<open>lostphotosfound\<close> need for such a pair to hold of them: \<open>R\<close> is reflexive
  and transitive, \<open>QE\<close> is closed under \<open>R\<close> on the left, \<open>_save_part\<close> and the
  assignment to the index have the outcome, and so have the exceptions raised in the
  loops themselves.
\<close>

definition outcome ::
  "(server \<Rightarrow> error \<Rightarrow> server \<Rightarrow> bool) \<Rightarrow> (server \<Rightarrow> server \<Rightarrow> bool) \<Rightarrow>
   server \<Rightarrow> server result \<Rightarrow> bool" where
  "outcome QE R st r \<longleftrightarrow>
     (case r of Inl (err, st') \<Rightarrow> QE st err st' | Inr st' \<Rightarrow> R st st')"

definition step_ok ::
  "(server \<Rightarrow> error \<Rightarrow> server \<Rightarrow> bool) \<Rightarrow> (server \<Rightarrow> server \<Rightarrow> bool) \<Rightarrow> env \<Rightarrow> bool" where
  "step_ok QE R e \<longleftrightarrow>
     (\<forall>s. R s s) \<and>
     (\<forall>a b c. R a b \<longrightarrow> R b c \<longrightarrow> R a c) \<and>
     (\<forall>a b err c. R a b \<longrightarrow> QE b err c \<longrightarrow> QE a err c) \<and>
     (\<forall>s part mail sender. outcome QE R s (save_part e s part mail sender)) \<and>
     (\<forall>s k. R s (s\<lparr>s_index := shelf_set (s_index s) k k\<rparr>)) \<and>
     (\<forall>s. QE s TypeError s \<and> QE s MsgIdFetchFailure s \<and> QE s IndexError s \<and>
          QE s BodyFetchFailure s)"

text \<open>The sender that \<open>lostphotosfound\<close> computes from a From header (lines 274 to 276).\<close>

definition sender_of :: "env \<Rightarrow> string \<Rightarrow> string" where
  "sender_of e f = (if parseaddr e f = [] then ''unknown_sender'' else parseaddr e f)"

section \<open>Concrete inputs\<close>

text \<open>
  A mailbox of the account \<open>me@gmail.com\<close>. Every message is from \<open>bob@example.com\<close> and
  dated \<open>Sun, 28 Oct 2012 19:15:22 +0000\<close>. The decoder and the address parser are the
  identity on these ASCII headers; the digest is the identity on the payload (an
  injective stand-in for SHA-1). Handle \<open>0\<close> has the identifier \<open>101\<close>, handle \<open>1\<close> the
  identifier \<open>102\<close>, and the identifier of any other handle cannot be fetched. No call of
  \<open>_cleanup\<close> raises. Every part below has the \<open>filename\<close> that \<open>get_filename()\<close> returns
  for its two headers.
\<close>

definition hdr0 :: part_hdr where
  "hdr0 = \<lparr>content_type = ''text/plain'',
            content_type_header = Some ''text/plain; charset=us-ascii'',
            filename = None,
            content_disposition = None,
            payload = Some ''hello'',
            date = Some ''Sun, 28 Oct 2012 19:15:22 +0000'',
            from_hdr = Some ''bob@example.com'',
            subject = Some ''photos''\<rparr>"

definition text_mail :: part where
  "text_mail = Part hdr0 []"

text \<open>A parameter value as a quoted string: double quote and backslash are escaped.\<close>

definition quoted :: "string \<Rightarrow> string" where
  "quoted s =
     [CHR 0x22] @
     concat (map (\<lambda>c. if c = CHR 0x22 \<or> c = CHR 0x5C then [CHR 0x5C, c] else [c]) s) @
     [CHR 0x22]"

text \<open>A JPEG attached under a name: \<open>Content-Disposition: attachment; filename="..."\<close>.\<close>

definition image_part :: "string \<Rightarrow> bytes option \<Rightarrow> part" where
  "image_part name pl =
     Part (hdr0\<lparr>content_type := ''image/jpeg'',
                content_type_header := Some ''image/jpeg'',
                filename := Some name,
                content_disposition := Some (''attachment; filename='' @ quoted name),
                payload := pl\<rparr>) []"

definition multipart_mail :: "part list \<Rightarrow> part" where
  "multipart_mail ps =
     Part (hdr0\<lparr>content_type := ''multipart/mixed'',
                content_type_header := Some ''multipart/mixed; boundary=b'',
                payload := None\<rparr>) ps"

definition related :: "part list \<Rightarrow> part" where
  "related ps =
     Part (hdr0\<lparr>content_type := ''multipart/related'',
                content_type_header := Some ''multipart/related; boundary=r'',
                payload := None\<rparr>) ps"

text \<open>
  An inline PNG: no Content-Disposition header, the name \<open>pic.png\<close> in the \<open>name\<close>
  parameter of the content type.
\<close>

definition inline_png :: part where
  "inline_png =
     Part (hdr0\<lparr>content_type := ''image/png'',
                content_type_header := Some (''image/png; name='' @ quoted ''pic.png''),
                filename := Some ''pic.png'',
                payload := Some ''PNG''\<rparr>) []"

text \<open>A PNG without a name anywhere.\<close>

definition nameless_png :: part where
  "nameless_png =
     Part (hdr0\<lparr>content_type := ''image/png'',
                content_type_header := Some ''image/png'',
                payload := Some ''PNG''\<rparr>) []"

text \<open>A PNG attached with the empty file name.\<close>

definition empty_name_png :: part where
  "empty_name_png =
     Part (hdr0\<lparr>content_type := ''image/png'',
                content_type_header := Some ''image/png'',
                filename := Some [],
                content_disposition := Some (''attachment; filename='' @ quoted []),
                payload := Some ''PNG''\<rparr>) []"

text \<open>
  JPEGs attached as \<open>None-beach.jpg\<close>, with the content type \<open>image/jpeg;
  name="beach.jpg"\<close>, with \<open>image/jpeg\<close> alone, and with a parameter after the name.
\<close>

definition none_beach_with :: "string \<Rightarrow> part" where
  "none_beach_with ct =
     Part (hdr0\<lparr>content_type := ''image/jpeg'',
                content_type_header := Some ct,
                filename := Some ''None-beach.jpg'',
                content_disposition := Some (''attachment; filename='' @ quoted ''None-beach.jpg''),
                payload := Some ''JPG''\<rparr>) []"

definition none_beach :: part where
  "none_beach = none_beach_with (''image/jpeg; name='' @ quoted ''beach.jpg'')"

definition none_beach_plain :: part where
  "none_beach_plain = none_beach_with ''image/jpeg''"

definition none_beach_trailing :: part where
  "none_beach_trailing =
     none_beach_with (''image/jpeg; name='' @ quoted ''beach.jpg'' @ ''; x-unix-mode=0644'')"

text \<open>The name \<open>My "Photo"! (2020).jpg\<close>.\<close>

definition photo_name :: string where
  "photo_name = ''My '' @ [CHR 0x22] @ ''Photo'' @ [CHR 0x22] @ ''! (2020).jpg''"

definition example_env :: "nat list \<Rightarrow> (nat \<Rightarrow> part list option) \<Rightarrow> env" where
  "example_env handles bodies =
     \<lparr>charset_decoder = (\<lambda>s. s),
      parsedate = (\<lambda>s. if s = ''Sun, 28 Oct 2012 19:15:22 +0000''
                         then Some (2012, 10, 28, 19, 15, 22) else None),
      parseaddr = (\<lambda>s. s),
      sha1_hexdigest = (\<lambda>b. b),
      types_map = [(''.png'', ''image/png''), (''.txt'', ''text/plain''),
                   (''.jpg'', ''image/jpeg'')],
      userdir = ''/home/u/LostPhotosFound'',
      gmail_search = (\<lambda>c. Some handles),
      fetch_msgid = (\<lambda>m. if m = 0 then Some [''101'']
                           else if m = 1 then Some [''102''] else None),
      fetch_rfc822 = bodies,
      write_fails = (\<lambda>p. False),
      cleanup_raises = (\<lambda>c. False)\<rparr>"

definition open_shelf :: shelf where
  "open_shelf = \<lparr>entries = Map.empty, synced = True, is_closed = False\<rparr>"

text \<open>The state after \<open>__init__\<close> on a first run: empty stores, nothing on disk.\<close>

definition fresh :: server where
  "fresh = \<lparr>seq = None, s_index = open_shelf, s_hashes = open_shelf, s_search = [],
            s_use_index = True, s_use_folders = False, s_username = ''me@gmail.com'',
            folder_selected = True, logged_in = True, files = Map.empty, dirs = {}\<rparr>"

definition account_dir :: string where
  "account_dir = ''/home/u/LostPhotosFound/me@gmail.com''"

definition saved_a :: string where
  "saved_a = ''/home/u/LostPhotosFound/me@gmail.com/2012-10-28_19-15-22_a.jpg''"

definition saved_pic :: string where
  "saved_pic = ''/home/u/LostPhotosFound/me@gmail.com/2012-10-28_19-15-22_pic.png''"

text \<open>A disk on which \<open>saved_a\<close> already exists.\<close>

definition with_old_file :: server where
  "with_old_file = fresh\<lparr>files := [saved_a \<mapsto> ''old''], dirs := {account_dir}\<rparr>"

text \<open>One message that is \<open>text/plain\<close>.\<close>

definition env_text :: env where
  "env_text = example_env [0] (\<lambda>m. Some [text_mail])"

text \<open>
  A message with one image, then a handle whose identifier cannot be fetched.
\<close>

definition env_fetch_failure :: env where
  "env_fetch_failure =
     example_env [0, 2] (\<lambda>m. Some [multipart_mail [image_part ''a.jpg'' (Some ''Q'')]])"

text \<open>
  Two messages, each with a part of payload \<open>P\<close> named \<open>a.jpg\<close>; the first message
  has, before it, a part of payload \<open>Q\<close> with the same name.
\<close>

definition env_one_path :: env where
  "env_one_path =
     example_env [0, 1]
       (\<lambda>m. if m = 0
             then Some [multipart_mail [image_part ''a.jpg'' (Some ''Q''),
                                        image_part ''a.jpg'' (Some ''P'')]]
             else Some [multipart_mail [image_part ''a.jpg'' (Some ''P'')]])"

text \<open>Two messages, each with a part of payload \<open>P\<close>, named \<open>a.jpg\<close> and \<open>b.jpg\<close>.\<close>

definition mail_a :: part where
  "mail_a = multipart_mail [image_part ''a.jpg'' (Some ''P'')]"

definition mail_b :: part where
  "mail_b = multipart_mail [image_part ''b.jpg'' (Some ''P'')]"

definition env_two_names :: env where
  "env_two_names = example_env [0, 1] (\<lambda>m. if m = 0 then Some [mail_a] else Some [mail_b])"

text \<open>The same mailbox on a session whose \<open>logout()\<close> raises.\<close>

definition env_logout_raises :: env where
  "env_logout_raises = env_two_names\<lparr>cleanup_raises := (\<lambda>c. c = Logout)\<rparr>"

text \<open>
  A message with a text part and, nested in a \<open>multipart/related\<close> container, the
  inline PNG.
\<close>

definition nested_mail :: part where
  "nested_mail = multipart_mail [text_mail, related [inline_png]]"

section \<open>Evaluation on concrete inputs\<close>

lemmas ex_defs = hdr0_def text_mail_def quoted_def image_part_def multipart_mail_def
  related_def inline_png_def nameless_png_def empty_name_png_def none_beach_with_def
  none_beach_def none_beach_plain_def none_beach_trailing_def example_env_def open_shelf_def
  fresh_def account_dir_def saved_a_def saved_pic_def with_old_file_def env_text_def
  env_fetch_failure_def env_one_path_def mail_a_def mail_b_def env_two_names_def
  env_logout_raises_def nested_mail_def

lemmas model_defs = lostphotosfound_def filter_messages_def criteria_def image_filter_def
  mimelist_def handle_msg_def handle_mail_def handle_part_def save_part_def destination_def
  store_payload_def resolve_filename_def header_date_def savepath_def path_join_def
  get_content_maintype_def shelf_keys_def shelf_set_def cleanup_def cleanup_order_def
  after_cleanup_def shelf_sync_def shelf_close_def py_remove_def py_split_def final_state_def
  sender_of_def Let_def

lemma date_str:
  "str_nat 2012 = ''2012''" "str_nat 10 = ''10''" "str_nat 28 = ''28''"
  "str_nat 19 = ''19''" "str_nat 15 = ''15''" "str_nat 22 = ''22''"
  by (simp_all add: str_nat.simps digit_char_def)

lemma fromkeys_apply: "fromkeys ks c = (if c \<in> set ks then Some None else None)"
  unfolding fromkeys_def by (induction ks) auto

lemma sanitize_filter: "sanitize s = filter (\<lambda>c. c \<notin> set punct) s"
  unfolding sanitize_def translate_def maketrans_def
  by (induction s) (simp_all add: fromkeys_apply)

lemma sanitize_photo_name: "sanitize photo_name = ''My Photo (2020).jpg''"
  by (simp add: sanitize_filter punct_def photo_name_def)

lemma run_text:
  "lostphotosfound env_text fresh = Inr (after_cleanup fresh)"
  by (simp add: model_defs ex_defs)

lemma run_fetch_failure:
  "lostphotosfound env_fetch_failure fresh =
     Inl (MsgIdFetchFailure,
          fresh\<lparr>seq := Some 0,
                s_index := shelf_set open_shelf ''101'' ''101'',
                s_hashes := shelf_set open_shelf ''Q'' ''Q'',
                files := [saved_a \<mapsto> ''Q''],
                dirs := {account_dir}\<rparr>)"
  by (simp add: model_defs ex_defs date_str sanitize_filter punct_def)


lemma run_two_names:
  "lostphotosfound env_two_names fresh =
     Inr (after_cleanup (fresh\<lparr>seq := Some 0,
                s_index := shelf_set (shelf_set open_shelf ''101'' ''101'') ''102'' ''102'',
                s_hashes := shelf_set open_shelf ''P'' ''P'',
                files := [saved_a \<mapsto> ''P''],
                dirs := {account_dir}\<rparr>))"
  by (simp add: model_defs ex_defs date_str sanitize_filter punct_def)

lemma run_logout_raises:
  "lostphotosfound env_logout_raises fresh =
     Inl (CleanupFailure Logout,
          fold apply_call [IndexSync, IndexClose, HashesSync, HashesClose, CloseFolder]
            (fresh\<lparr>seq := Some 0,
                s_index := shelf_set (shelf_set open_shelf ''101'' ''101'') ''102'' ''102'',
                s_hashes := shelf_set open_shelf ''P'' ''P'',
                files := [saved_a \<mapsto> ''P''],
                dirs := {account_dir}\<rparr>))"
  by (simp add: model_defs ex_defs date_str sanitize_filter punct_def)

section \<open>What a call changes\<close>

text \<open>
  Choosing the name touches only the counter, and choosing the destination only the
  counter and the set of directories.
\<close>

lemma resolve_filename_state:
  "case resolve_filename e st part of
     Inl (err, st1) \<Rightarrow> \<not> raised_by_cleanup err \<and> (\<exists>k. st1 = st\<lparr>seq := k\<rparr>)
   | Inr (n, st1) \<Rightarrow> \<exists>k. st1 = st\<lparr>seq := k\<rparr>"
proof -
  have "st = st\<lparr>seq := seq st\<rparr>" by simp
  then have "\<exists>k. st = st\<lparr>seq := k\<rparr>" ..
  then show ?thesis
    unfolding resolve_filename_def
    by (auto simp: Let_def raised_by_cleanup_def split: option.splits list.splits)
qed

lemma destination_state:
  "case destination e st part mail sender of
     Inl (err, st1) \<Rightarrow> \<not> raised_by_cleanup err \<and> (\<exists>k. st1 = st\<lparr>seq := k\<rparr>)
   | Inr (saved, st2) \<Rightarrow> \<exists>k d. st2 = st\<lparr>seq := k, dirs := d\<rparr>"
proof -
  have d: "s = s\<lparr>dirs := dirs s\<rparr>" for s :: server by simp
  show ?thesis
    using resolve_filename_state [where e=e and st=st and part=part]
    unfolding destination_def
    apply (auto simp: Let_def raised_by_cleanup_def split: sum.splits option.splits prod.splits)
    subgoal for k by (rule exI [of _ k], rule exI [of _ "dirs st"]) simp
    done
qed

lemma counter_never_advances:
  assumes "resolve_filename e st part = Inr (n, st')"
  shows "st' = (if seq st = None then st\<lparr>seq := Some 0\<rparr> else st)"
  using assms
  by (auto simp: resolve_filename_def Let_def split: if_splits option.splits list.splits)

lemma destination_name:
  assumes "resolve_filename e st part = Inr (n, st1)" and "header_date e mail = Some d"
  shows "\<exists>st2. destination e st part mail sender =
           Inr (path_join (savepath e st1 sender) (d @ sanitize n), st2)"
  using assms by (simp add: destination_def Let_def)

lemma destination_ignores_payload:
  "destination e st (Part (h\<lparr>payload := pl\<rparr>) ps) mail sender =
   destination e st (Part h ps) mail sender"
  by (simp add: destination_def resolve_filename_def Let_def)

lemma save_part_ignores_disposition:
  "save_part e st (Part (h\<lparr>content_disposition := d\<rparr>) ps) mail sender =
   save_part e st (Part h ps) mail sender"
proof -
  have "destination e st (Part (h\<lparr>content_disposition := d\<rparr>) ps) mail sender =
        destination e st (Part h ps) mail sender"
    by (simp add: destination_def resolve_filename_def Let_def)
  moreover have "store_payload e s (Part (h\<lparr>content_disposition := d\<rparr>) ps) saved =
        store_payload e s (Part h ps) saved" for s saved
    by (simp add: store_payload_def)
  ultimately show ?thesis
    by (simp add: save_part_def split: sum.splits prod.splits)
qed

lemma store_payload_keeps:
  assumes "files st p = Some c"
  shows "files (final_state (store_payload e st part saved)) p = Some c"
  using assms
  by (auto simp: store_payload_def final_state_def Let_def split: option.splits)

section \<open>What the loops preserve\<close>

text \<open>
  The loops of \<open>lostphotosfound\<close> only chain calls of \<open>_save_part\<close> and assignments to
  the index: a pair of relations that is \<open>step_ok\<close> holds of each loop.
\<close>

lemma outcome_return:
  assumes "step_ok QE R e"
  shows "outcome QE R st (Inr st)"
  using assms by (simp add: step_ok_def outcome_def)

lemma outcome_bind:
  assumes ok: "step_ok QE R e"
    and first: "outcome QE R st r"
    and rest: "\<And>s. outcome QE R s (k s)"
  shows "outcome QE R st (case r of Inl err \<Rightarrow> Inl err | Inr s \<Rightarrow> k s)"
proof (cases r)
  case (Inl a)
  then show ?thesis using first by simp
next
  case (Inr s)
  then have R: "R st s" using first by (simp add: outcome_def)
  show ?thesis
  proof (cases "k s")
    case (Inl a)
    obtain err c where a: "a = (err, c)" by (cases a)
    have "QE s err c" using rest [of s] Inl a by (simp add: outcome_def)
    then have "QE st err c" using ok R unfolding step_ok_def by blast
    then show ?thesis using Inl a \<open>r = Inr s\<close> by (simp add: outcome_def)
  next
    case (Inr c)
    have "R s c" using rest [of s] Inr by (simp add: outcome_def)
    then have "R st c" using ok R unfolding step_ok_def by blast
    then show ?thesis using Inr \<open>r = Inr s\<close> by (simp add: outcome_def)
  qed
qed

lemma handle_part_outcome:
  assumes "step_ok QE R e"
  shows "outcome QE R st (handle_part e st mail sender p)"
proof -
  have "outcome QE R st (save_part e st p mail sender)"
    using assms unfolding step_ok_def by blast
  then show ?thesis
    using outcome_return [OF assms, of st] by (simp add: handle_part_def)
qed

lemma walk_loop_outcome:
  assumes "step_ok QE R e"
  shows "outcome QE R st (walk_loop e st mail sender ps)"
proof (induction ps arbitrary: st)
  case Nil
  show ?case using outcome_return [OF assms, of st] by simp
next
  case (Cons p ps)
  have "outcome QE R st
          (case handle_part e st mail sender p of
             Inl err \<Rightarrow> Inl err
           | Inr s \<Rightarrow> walk_loop e s mail sender ps)"
    using assms handle_part_outcome [OF assms] Cons.IH by (rule outcome_bind)
  then show ?case by simp
qed

lemma handle_mail_outcome:
  assumes "step_ok QE R e"
  shows "outcome QE R st (handle_mail e st msgid mail)"
proof (cases "get_content_maintype mail \<noteq> ''multipart''")
  case True
  then show ?thesis using outcome_return [OF assms, of st] by (simp add: handle_mail_def)
next
  case mp: False
  show ?thesis
  proof (cases "from_hdr (hdr mail)")
    case None
    have "QE st TypeError st" using assms unfolding step_ok_def by blast
    then show ?thesis using mp None by (simp add: handle_mail_def outcome_def)
  next
    case (Some f)
    have idx: "outcome QE R s (Inr (s\<lparr>s_index := shelf_set (s_index s) msgid msgid\<rparr>))" for s
      using assms unfolding step_ok_def outcome_def by simp
    have "outcome QE R st
            (case walk_loop e st mail (sender_of e f) (walk mail) of
               Inl err \<Rightarrow> Inl err
             | Inr s \<Rightarrow> Inr (s\<lparr>s_index := shelf_set (s_index s) msgid msgid\<rparr>))"
      using assms walk_loop_outcome [OF assms] idx by (rule outcome_bind)
    then show ?thesis using mp Some by (simp add: handle_mail_def sender_of_def Let_def)
  qed
qed

lemma data_loop_outcome:
  assumes "step_ok QE R e"
  shows "outcome QE R st (data_loop e st msgid mails)"
proof (induction mails arbitrary: st)
  case Nil
  show ?case using outcome_return [OF assms, of st] by simp
next
  case (Cons m ms)
  have "outcome QE R st
          (case handle_mail e st msgid m of
             Inl err \<Rightarrow> Inl err
           | Inr s \<Rightarrow> data_loop e s msgid ms)"
    using assms handle_mail_outcome [OF assms] Cons.IH by (rule outcome_bind)
  then show ?case by simp
qed

lemma handle_msg_outcome:
  assumes "step_ok QE R e"
  shows "outcome QE R st (handle_msg e st msg)"
proof -
  have errs: "QE st MsgIdFetchFailure st" "QE st IndexError st" "QE st BodyFetchFailure st"
    using assms unfolding step_ok_def by blast+
  show ?thesis
    using errs outcome_return [OF assms, of st] data_loop_outcome [OF assms, of st]
    by (simp add: handle_msg_def outcome_def split: option.splits list.splits)
qed

lemma msg_loop_outcome:
  assumes "step_ok QE R e"
  shows "outcome QE R st (msg_loop e st msgs)"
proof (induction msgs arbitrary: st)
  case Nil
  show ?case using outcome_return [OF assms, of st] by simp
next
  case (Cons m ms)
  have "outcome QE R st
          (case handle_msg e st m of
             Inl err \<Rightarrow> Inl err
           | Inr s \<Rightarrow> msg_loop e s ms)"
    using assms handle_msg_outcome [OF assms] Cons.IH by (rule outcome_bind)
  then show ?case by simp
qed

section \<open>The stores stay open and unflushed until \<open>_cleanup\<close>\<close>

lemma flags_kept_refl: "flags_kept st st"
  by (simp add: flags_kept_def)

lemma flags_kept_trans: "flags_kept a b \<Longrightarrow> flags_kept b c \<Longrightarrow> flags_kept a c"
  by (auto simp: flags_kept_def)

lemma store_payload_flags: "outcome flags_err flags_kept st (store_payload e st part saved)"
  unfolding store_payload_def outcome_def flags_err_def flags_kept_def raised_by_cleanup_def
  by (auto simp: Let_def shelf_set_def split: option.splits)

lemma save_part_flags: "outcome flags_err flags_kept st (save_part e st part mail sender)"
proof (cases "destination e st part mail sender")
  case (Inl a)
  then show ?thesis
    using destination_state [where e=e and st=st and part=part and mail=mail and sender=sender]
    by (auto simp: save_part_def outcome_def flags_err_def flags_kept_def)
next
  case (Inr b)
  obtain saved st2 where b: "b = (saved, st2)" by (cases b)
  with Inr destination_state [where e=e and st=st and part=part and mail=mail and sender=sender]
  have k: "flags_kept st st2" by (auto simp: flags_kept_def)
  have "outcome flags_err flags_kept st2 (store_payload e st2 part saved)"
    by (rule store_payload_flags)
  then have "outcome flags_err flags_kept st (store_payload e st2 part saved)"
    using k
    by (auto simp: outcome_def flags_err_def intro: flags_kept_trans split: sum.splits)
  then show ?thesis using Inr b by (simp add: save_part_def)
qed

lemma flags_step_ok: "step_ok flags_err flags_kept e"
  unfolding step_ok_def
proof (intro conjI allI impI)
  show "flags_kept s s" for s by (rule flags_kept_refl)
  show "flags_kept a c" if "flags_kept a b" "flags_kept b c" for a b c
    using that by (rule flags_kept_trans)
  show "flags_err a err c" if "flags_kept a b" "flags_err b err c" for a b err c
    using that by (auto simp: flags_err_def intro: flags_kept_trans)
  show "outcome flags_err flags_kept s (save_part e s part mail sender)" for s part mail sender
    by (rule save_part_flags)
  show "flags_kept s (s\<lparr>s_index := shelf_set (s_index s) k k\<rparr>)" for s k
    by (simp add: flags_kept_def shelf_set_def)
  show "flags_err s TypeError s" "flags_err s MsgIdFetchFailure s" "flags_err s IndexError s"
    "flags_err s BodyFetchFailure s" for s
    by (simp_all add: flags_err_def raised_by_cleanup_def flags_kept_refl)
qed

lemma cleanup_calls_ends:
  "(cleanup_calls e st cs = Inr st' \<longrightarrow> st' = fold apply_call cs st) \<and>
   (cleanup_calls e st cs = Inl (err, st') \<longrightarrow>
      (\<exists>c. err = CleanupFailure c \<and> cleanup_raises e c \<and>
           st' = fold apply_call (takeWhile (\<lambda>x. x \<noteq> c) cs) st))"
proof (induction cs arbitrary: st)
  case Nil
  show ?case by auto
next
  case (Cons c0 cs)
  show ?case
  proof (cases "cleanup_raises e c0")
    case True
    then show ?thesis by auto
  next
    case False
    then have eq: "cleanup_calls e st (c0 # cs) = cleanup_calls e (apply_call c0 st) cs"
      by simp
    have "\<exists>c. err = CleanupFailure c \<and> cleanup_raises e c \<and>
            st' = fold apply_call (takeWhile (\<lambda>x. x \<noteq> c) (c0 # cs)) st"
      if "cleanup_calls e (apply_call c0 st) cs = Inl (err, st')"
    proof -
      from that Cons.IH [of "apply_call c0 st"] obtain c where
        c: "err = CleanupFailure c" "cleanup_raises e c"
          "st' = fold apply_call (takeWhile (\<lambda>x. x \<noteq> c) cs) (apply_call c0 st)"
        by blast
      then have "c0 \<noteq> c" using False by auto
      then show ?thesis using c by auto
    qed
    then show ?thesis using Cons.IH [of "apply_call c0 st"] eq by auto
  qed
qed

lemma after_cleanup_flags:
  "synced (s_index (after_cleanup st)) \<and> is_closed (s_index (after_cleanup st)) \<and>
   synced (s_hashes (after_cleanup st)) \<and> is_closed (s_hashes (after_cleanup st)) \<and>
   \<not> folder_selected (after_cleanup st) \<and> \<not> logged_in (after_cleanup st)"
  by (simp add: after_cleanup_def cleanup_order_def shelf_sync_def shelf_close_def)

section \<open>Files and digests are only added\<close>








section \<open>The hash store matches the disk\<close>







section \<open>Strings\<close>

lemma set_punct:
  "set punct = {CHR ''!'', CHR 0x22, CHR ''#'', CHR ''$'', CHR ''&'', CHR 0x27, CHR ''*'',
      CHR ''+'', CHR ''/'', CHR '';'', CHR ''<'', CHR ''>'', CHR ''?'', CHR ''['', CHR 0x5C,
      CHR '']'', CHR ''^'', CHR 0x60, CHR ''{'', CHR ''|'', CHR ''}'', CHR ''~''}"
  by (simp add: punct_def)

lemma maintype_prefix:
  assumes "takeWhile (\<lambda>c. c \<noteq> CHR ''/'') s = m" and "CHR ''/'' \<in> set s"
  shows "prefix (m @ ''/'') s"
proof -
  let ?P = "\<lambda>c. c \<noteq> CHR ''/''"
  have "dropWhile ?P s \<noteq> []" using assms(2) by (simp add: dropWhile_eq_Nil_conv)
  moreover have "\<not> ?P (hd (dropWhile ?P s))"
    using calculation by (rule hd_dropWhile)
  ultimately obtain r where "dropWhile ?P s = CHR ''/'' # r"
    by (cases "dropWhile ?P s") auto
  then have "s = m @ CHR ''/'' # r"
    using assms(1) takeWhile_dropWhile_id [of ?P s] by simp
  then show ?thesis by (simp add: prefix_def)
qed

lemma prefix_py_in: "prefix sub s \<Longrightarrow> py_in sub s"
  by (cases s) auto

lemma py_in_iff: "py_in sub s \<longleftrightarrow> sublist sub s"
proof (induction s)
  case Nil
  then show ?case by simp
next
  case (Cons c cs)
  then show ?case by (simp only: py_in.simps sublist_Cons_right)
qed

lemma split_from_ne: "split_from sep acc s \<noteq> []"
  by (induction sep acc s rule: split_from.induct) auto

lemma split_from_last:
  "\<exists>x. rev acc @ s = x @ last (split_from sep acc s) \<and> (x = [] \<or> suffix sep x)"
proof (induction sep acc s rule: split_from.induct)
  case (1 sep acc)
  then show ?case by simp
next
  case (2 sep acc c cs)
  show ?case
  proof (cases "sep \<noteq> [] \<and> prefix sep (c # cs)")
    case True
    define r where "r = drop (length sep) (c # cs)"
    have r: "c # cs = sep @ r" using True by (auto simp: prefix_def r_def)
    have L: "last (split_from sep acc (c # cs)) = last (split_from sep [] r)"
      using True by (simp add: split_from_ne r_def)
    from 2(1)[OF True] obtain x where
      x: "r = x @ last (split_from sep [] r)" and xs: "x = [] \<or> suffix sep x"
      unfolding r_def by auto
    have "rev acc @ c # cs = rev acc @ sep @ r" by (simp only: r)
    also have "\<dots> = (rev acc @ sep @ x) @ last (split_from sep [] r)"
      using x by (metis append.assoc)
    finally have "rev acc @ c # cs = (rev acc @ sep @ x) @ last (split_from sep acc (c # cs))"
      by (simp only: L)
    moreover have "suffix sep (rev acc @ sep @ x)"
      using xs by (auto simp: suffix_def)
    ultimately show ?thesis by blast
  next
    case False
    then have "split_from sep acc (c # cs) = split_from sep (c # acc) cs" by auto
    then show ?thesis using 2(2)[OF False] by simp
  qed
qed

lemma split_from_last_no_sep:
  assumes "sep \<noteq> []"
    and "\<And>ps ss. rev acc @ s = ps @ sep @ ss \<Longrightarrow> length acc \<le> length ps"
  shows "\<not> sublist sep (last (split_from sep acc s))"
  using assms
proof (induction sep acc s rule: split_from.induct)
  case (1 sep acc)
  show ?case
  proof
    assume "sublist sep (last (split_from sep acc []))"
    then obtain ps ss where "rev acc = ps @ sep @ ss" by (auto simp: sublist_def)
    moreover from this have "length acc = length ps + length sep + length ss"
      by (metis length_append length_rev add.assoc)
    ultimately show False using 1(2)[of ps ss] 1(1) by simp
  qed
next
  case (2 sep acc c cs)
  show ?case
  proof (cases "sep \<noteq> [] \<and> prefix sep (c # cs)")
    case True
    have "\<not> sublist sep (last (split_from sep [] (drop (length sep) (c # cs))))"
      using 2(1)[OF True 2(3)] by simp
    then show ?thesis using True by (simp add: split_from_ne)
  next
    case False
    have "length (c # acc) \<le> length ps" if eq: "rev (c # acc) @ cs = ps @ sep @ ss" for ps ss
    proof -
      have eq': "rev acc @ c # cs = ps @ sep @ ss" using eq by simp
      then have le: "length acc \<le> length ps" by (rule 2(4))
      have "length ps \<noteq> length acc"
      proof
        assume "length ps = length acc"
        then have "c # cs = sep @ ss" using eq' by (simp add: append_eq_append_conv)
        then have "prefix sep (c # cs)" by (metis prefixI)
        then show False using False 2(3) by simp
      qed
      then show ?thesis using le by simp
    qed
    then have "\<not> sublist sep (last (split_from sep (c # acc) cs))"
      using 2(2)[OF False 2(3)] by blast
    moreover have "split_from sep acc (c # cs) = split_from sep (c # acc) cs"
      using False by auto
    ultimately show ?thesis by simp
  qed
qed

lemma split_from_no_sep:
  assumes "\<not> sublist sep s"
  shows "split_from sep acc s = [rev acc @ s]"
  using assms
proof (induction sep acc s rule: split_from.induct)
  case (1 sep acc)
  show ?case by simp
next
  case (2 sep acc c cs)
  have np: "\<not> prefix sep (c # cs)"
    using 2(3) by (auto simp: sublist_Cons_right)
  have "\<not> sublist sep cs"
    using 2(3) by (auto simp: sublist_Cons_right)
  then have "split_from sep (c # acc) cs = [rev (c # acc) @ cs]"
    using 2(2) np by blast
  then show ?case using np by simp
qed

text \<open>
  When the first character of the separator occurs nowhere else in it, two occurrences
  of the separator cannot overlap, and the last piece of a split is what follows the
  last occurrence.
\<close>

lemma split_from_last_after:
  assumes ne: "sep \<noteq> []"
    and first: "\<And>k. 0 < k \<Longrightarrow> k < length sep \<Longrightarrow> sep ! k \<noteq> sep ! 0"
    and v: "\<not> sublist sep v"
  shows "last (split_from sep acc (pre @ sep @ v)) = v"
proof (induction "length pre" arbitrary: pre acc rule: less_induct)
  case less
  show ?case
  proof (cases pre)
    case Nil
    obtain c cs where sv: "sep @ v = c # cs" using ne by (cases sep) auto
    have "prefix sep (c # cs)" using sv by (metis prefixI)
    moreover have "drop (length sep) (c # cs) = v" using sv by (metis append_eq_conv_conj)
    ultimately have "split_from sep acc (c # cs) = rev acc # split_from sep [] v"
      using ne by simp
    then show ?thesis using Nil sv split_from_no_sep [OF v, of "[]"] by simp
  next
    case (Cons c pre')
    let ?s = "pre @ sep @ v"
    have s: "?s = c # (pre' @ sep @ v)" using Cons by simp
    show ?thesis
    proof (cases "prefix sep ?s")
      case True
      have long: "length sep \<le> length pre"
      proof (rule ccontr)
        assume "\<not> length sep \<le> length pre"
        then have lt: "length pre < length sep" by simp
        have pos: "0 < length pre" using Cons by simp
        from True obtain r where r: "?s = sep @ r" by (auto simp: prefix_def)
        have "?s ! length pre = sep ! 0"
          using ne by (simp add: nth_append)
        moreover have "?s ! length pre = sep ! length pre"
          using r lt by (simp add: nth_append)
        ultimately show False using first [OF pos lt] by simp
      qed
      then have d: "drop (length sep) ?s = drop (length sep) pre @ sep @ v" by simp
      have "length (drop (length sep) pre) < length pre" using ne Cons by simp
      then have "last (split_from sep [] (drop (length sep) pre @ sep @ v)) = v"
        by (rule less)
      moreover have "split_from sep acc ?s = rev acc # split_from sep [] (drop (length sep) ?s)"
        using True ne s by simp
      ultimately show ?thesis using d by (simp add: split_from_ne)
    next
      case False
      then have "split_from sep acc ?s = split_from sep (c # acc) (pre' @ sep @ v)"
        using s by simp
      moreover have "last (split_from sep (c # acc) (pre' @ sep @ v)) = v"
        using Cons by (intro less) simp
      ultimately show ?thesis by simp
    qed
  qed
qed

lemma name_eq_first: "0 < k \<Longrightarrow> k < length ''name='' \<Longrightarrow> ''name='' ! k \<noteq> ''name='' ! 0"
  by (auto simp: less_Suc_eq nth_Cons')

lemma last_name_piece:
  assumes "\<not> py_in ''name='' v"
  shows "last (py_split (pre @ ''name='' @ v) ''name='') = v"
proof -
  have "last (split_from ''name='' [] (pre @ ''name='' @ v)) = v"
  proof (rule split_from_last_after)
    show "''name='' \<noteq> []" by simp
    show "\<And>k. 0 < k \<Longrightarrow> k < length ''name='' \<Longrightarrow> ''name='' ! k \<noteq> ''name='' ! 0"
      by (rule name_eq_first)
    show "\<not> sublist ''name='' v" using assms py_in_iff by blast
  qed
  then show ?thesis by (simp only: py_split_def)
qed

section \<open>The walk and the parts it reaches\<close>

lemma walk_self: "mail \<in> set (walk mail)"
  by (cases mail) simp

lemma walk_subparts:
  assumes "q \<in> set (walk mail)" and "p \<in> set (subparts q)"
  shows "p \<in> set (walk mail)"
  using assms
proof (induction mail rule: walk.induct)
  case (1 h ps)
  show ?case
  proof (cases "q = Part h ps")
    case True
    then have "p \<in> set ps" using 1(3) by simp
    moreover have "p \<in> set (walk p)" by (rule walk_self)
    ultimately show ?thesis by auto
  next
    case False
    then obtain m where m: "m \<in> set ps" "q \<in> set (walk m)" using 1(2) by auto
    then have "p \<in> set (walk m)" using 1(1) 1(3) by blast
    then show ?thesis using m(1) by auto
  qed
qed

lemma walk_loop_append:
  "walk_loop e st mail sender (xs @ ys) =
     (case walk_loop e st mail sender xs of
        Inl err \<Rightarrow> Inl err
      | Inr s \<Rightarrow> walk_loop e s mail sender ys)"
  by (induction xs arbitrary: st) (simp_all split: sum.splits)

lemma handle_part_image:
  assumes "get_content_maintype p = ''image''"
    and "CHR ''/'' \<in> set (content_type (hdr p))"
  shows "handle_part e st mail sender p = save_part e st p mail sender"
proof -
  have "prefix (''image'' @ ''/'') (content_type (hdr p))"
    using assms unfolding get_content_maintype_def by (rule maintype_prefix)
  then have "py_in ''image/'' (content_type (hdr p))"
    by (intro prefix_py_in) simp
  then show ?thesis
    using assms(1) by (simp add: handle_part_def)
qed





section \<open>The claims\<close>

subsection \<open>C1: a message that is not multipart\<close>

text \<open>
  C1 says that a fetched message whose top-level content type is not multipart yields no
  attachment and still has its identifier recorded in the index. The first half holds.
  The second does not: the \<open>continue\<close> of line 261 leaves the iteration before line 293
  assigns \<open>self._index[msgid]\<close>, so handling such a message returns the state as it was:
  no file, no digest, and no index entry.
\<close>

theorem non_multipart_message_leaves_no_trace:
  assumes "fetch_msgid e msg = Some (msgid # others)"
    and "fetch_rfc822 e msg = Some [mail]"
    and "get_content_maintype mail \<noteq> ''multipart''"
  shows "handle_msg e st msg = Inr st"
  using assms by (simp add: handle_msg_def handle_mail_def)

text \<open>
  On the mailbox with the single \<open>text/plain\<close> message \<open>101\<close> the run completes, the
  index does not hold \<open>101\<close> and no file was written.
\<close>

theorem non_multipart_message_leaves_no_trace_witness:
  "lostphotosfound env_text fresh = Inr (after_cleanup fresh) \<and>
   ''101'' \<notin> shelf_keys (s_index (after_cleanup fresh)) \<and>
   files (after_cleanup fresh) = Map.empty"
  using non_multipart_message_leaves_no_trace
    [where e=env_text and msg=0 and msgid="''101''" and others="[]" and mail=text_mail
       and st=fresh]
  by (simp add: model_defs ex_defs)

text \<open>
  The sibling path: a multipart message whose walk completes is recorded, also when
  none of its parts is an image.
\<close>

lemma multipart_message_indexed:
  assumes "get_content_maintype mail = ''multipart''"
    and "from_hdr (hdr mail) = Some f"
    and "walk_loop e st mail (if parseaddr e f = [] then ''unknown_sender'' else parseaddr e f)
           (walk mail) = Inr st'"
  shows "handle_mail e st msgid mail = Inr (st'\<lparr>s_index := shelf_set (s_index st') msgid msgid\<rparr>)"
  using assms by (simp add: handle_mail_def Let_def)

subsection \<open>C2: cleanup and fatal errors\<close>

text \<open>
  C2, as amended: \<open>_cleanup\<close> is called only after the loop over the messages has
  completed. When the run returns, both stores have been flushed and closed, the folder
  is closed and the session logged out. When the run is ended by an error that no call of
  \<open>_cleanup\<close> raised (a rejected search, a failed fetch of the identifier or of the body,
  a payload that does not decode, a failed write, any exception of the loop), no call of
  \<open>_cleanup\<close> has been made: neither store has been flushed or closed and the session
  is as it was. When a call of \<open>_cleanup\<close> raises, the run ends in that error with the
  calls before it done, in the order of the source, on the state the loop left, and the
  later ones not made.
\<close>

theorem cleanup_only_after_the_loop:
  "(lostphotosfound e st = Inr st' \<longrightarrow>
      (\<exists>st1. flags_kept st st1 \<and> st' = after_cleanup st1) \<and>
      synced (s_index st') \<and> is_closed (s_index st') \<and>
      synced (s_hashes st') \<and> is_closed (s_hashes st') \<and>
      \<not> folder_selected st' \<and> \<not> logged_in st') \<and>
   (lostphotosfound e st = Inl (err, st') \<and> \<not> raised_by_cleanup err \<longrightarrow>
      flags_kept st st') \<and>
   (lostphotosfound e st = Inl (err, st') \<and> raised_by_cleanup err \<longrightarrow>
      (\<exists>st1 c. err = CleanupFailure c \<and> cleanup_raises e c \<and> flags_kept st st1 \<and>
         st' = fold apply_call (takeWhile (\<lambda>x. x \<noteq> c) cleanup_order) st1)) \<and>
   \<not> raised_by_cleanup SearchFailure \<and> \<not> raised_by_cleanup MsgIdFetchFailure \<and>
   \<not> raised_by_cleanup BodyFetchFailure \<and> \<not> raised_by_cleanup (DownloadFailure path) \<and>
   \<not> raised_by_cleanup (WriteFailure path)"
proof -
  have kinds: "\<not> raised_by_cleanup SearchFailure \<and> \<not> raised_by_cleanup MsgIdFetchFailure \<and>
      \<not> raised_by_cleanup BodyFetchFailure \<and> \<not> raised_by_cleanup (DownloadFailure path) \<and>
      \<not> raised_by_cleanup (WriteFailure path)"
    by (simp add: raised_by_cleanup_def)
  show ?thesis
  proof (cases "filter_messages e st")
    case (Inl a)
    then have run: "lostphotosfound e st = Inl (SearchFailure, st)"
      by (auto simp: lostphotosfound_def filter_messages_def split: option.splits)
    show ?thesis
      using kinds by (auto simp: run flags_kept_refl)
  next
    case (Inr messages)
    have loop: "outcome flags_err flags_kept st (msg_loop e st messages)"
      using flags_step_ok by (rule msg_loop_outcome)
    show ?thesis
    proof (cases "msg_loop e st messages")
      case (Inl a)
      obtain err1 s1 where a: "a = (err1, s1)" by (cases a)
      have run: "lostphotosfound e st = Inl (err1, s1)"
        using Inr Inl a by (simp add: lostphotosfound_def)
      have "\<not> raised_by_cleanup err1" and "flags_kept st s1"
        using loop Inl a by (simp_all add: outcome_def flags_err_def)
      then show ?thesis using kinds by (auto simp: run)
    next
      case (Inr st1)
      have run: "lostphotosfound e st = cleanup_calls e st1 cleanup_order"
        using \<open>filter_messages e st = Inr messages\<close> Inr
        by (simp add: lostphotosfound_def cleanup_def)
      have k: "flags_kept st st1" using loop Inr by (simp add: outcome_def)
      note ends = cleanup_calls_ends [where e=e and st=st1 and cs=cleanup_order and st'=st'
          and err=err]
      have ret: "(\<exists>s. flags_kept st s \<and> st' = after_cleanup s) \<and>
          synced (s_index st') \<and> is_closed (s_index st') \<and>
          synced (s_hashes st') \<and> is_closed (s_hashes st') \<and>
          \<not> folder_selected st' \<and> \<not> logged_in st'"
        if "lostphotosfound e st = Inr st'"
      proof -
        from that ends have "st' = after_cleanup st1"
          by (simp add: run after_cleanup_def)
        then show ?thesis using k after_cleanup_flags [of st1] by auto
      qed
      have raised: "\<exists>s c. err = CleanupFailure c \<and> cleanup_raises e c \<and> flags_kept st s \<and>
          st' = fold apply_call (takeWhile (\<lambda>x. x \<noteq> c) cleanup_order) s"
        if "lostphotosfound e st = Inl (err, st')"
      proof -
        from that ends obtain c where "err = CleanupFailure c" "cleanup_raises e c"
          "st' = fold apply_call (takeWhile (\<lambda>x. x \<noteq> c) cleanup_order) st1"
          by (auto simp: run)
        then show ?thesis using k by blast
      qed
      have other: "flags_kept st st'"
        if "lostphotosfound e st = Inl (err, st')" "\<not> raised_by_cleanup err"
        using raised [OF that(1)] that(2) by (auto simp: raised_by_cleanup_def)
      from ret raised other kinds show ?thesis by blast
    qed
  qed
qed

text \<open>
  A run that stops at the fetch of an identifier keeps the flags; a run that completes
  closes everything; a run whose \<open>logout()\<close> raises ends in an error with both stores
  flushed and closed and the folder closed.
\<close>

theorem cleanup_only_after_the_loop_witness:
  "lostphotosfound env_fetch_failure fresh =
     Inl (MsgIdFetchFailure, final_state (lostphotosfound env_fetch_failure fresh)) \<and>
   \<not> raised_by_cleanup MsgIdFetchFailure \<and>
   flags_kept fresh (final_state (lostphotosfound env_fetch_failure fresh)) \<and>
   lostphotosfound env_two_names fresh =
     Inr (final_state (lostphotosfound env_two_names fresh)) \<and>
   synced (s_index (final_state (lostphotosfound env_two_names fresh))) \<and>
   is_closed (s_index (final_state (lostphotosfound env_two_names fresh))) \<and>
   synced (s_hashes (final_state (lostphotosfound env_two_names fresh))) \<and>
   is_closed (s_hashes (final_state (lostphotosfound env_two_names fresh))) \<and>
   lostphotosfound env_logout_raises fresh =
     Inl (CleanupFailure Logout, final_state (lostphotosfound env_logout_raises fresh)) \<and>
   raised_by_cleanup (CleanupFailure Logout) \<and>
   is_closed (s_index (final_state (lostphotosfound env_logout_raises fresh))) \<and>
   is_closed (s_hashes (final_state (lostphotosfound env_logout_raises fresh))) \<and>
   \<not> folder_selected (final_state (lostphotosfound env_logout_raises fresh)) \<and>
   logged_in (final_state (lostphotosfound env_logout_raises fresh))"
proof -
  have a: "lostphotosfound env_fetch_failure fresh =
      Inl (MsgIdFetchFailure, final_state (lostphotosfound env_fetch_failure fresh))"
    by (simp add: run_fetch_failure final_state_def)
  have a': "\<not> raised_by_cleanup MsgIdFetchFailure"
    by (simp add: raised_by_cleanup_def)
  have b: "lostphotosfound env_two_names fresh =
      Inr (final_state (lostphotosfound env_two_names fresh))"
    by (simp add: run_two_names final_state_def)
  have c: "lostphotosfound env_logout_raises fresh =
      Inl (CleanupFailure Logout, final_state (lostphotosfound env_logout_raises fresh))"
    by (simp add: run_logout_raises final_state_def)
  have c': "raised_by_cleanup (CleanupFailure Logout)"
    by (simp add: raised_by_cleanup_def)
  have k: "flags_kept fresh (final_state (lostphotosfound env_fetch_failure fresh))"
    using cleanup_only_after_the_loop [where e=env_fetch_failure and st=fresh
        and err=MsgIdFetchFailure
        and st'="final_state (lostphotosfound env_fetch_failure fresh)"] a a'
    by blast
  have d: "synced (s_index (final_state (lostphotosfound env_two_names fresh))) \<and>
      is_closed (s_index (final_state (lostphotosfound env_two_names fresh))) \<and>
      synced (s_hashes (final_state (lostphotosfound env_two_names fresh))) \<and>
      is_closed (s_hashes (final_state (lostphotosfound env_two_names fresh)))"
    using cleanup_only_after_the_loop [where e=env_two_names and st=fresh
        and st'="final_state (lostphotosfound env_two_names fresh)"] b
    by blast
  have l: "is_closed (s_index (final_state (lostphotosfound env_logout_raises fresh))) \<and>
      is_closed (s_hashes (final_state (lostphotosfound env_logout_raises fresh))) \<and>
      \<not> folder_selected (final_state (lostphotosfound env_logout_raises fresh)) \<and>
      logged_in (final_state (lostphotosfound env_logout_raises fresh))"
    unfolding run_logout_raises
    by (simp add: final_state_def fresh_def open_shelf_def shelf_set_def shelf_close_def
        shelf_sync_def)
  from a a' k b d c c' l show ?thesis by blast
qed

text \<open>
  C2 as stated fails: the first message is handled and recorded, the identifier of the
  second cannot be fetched, and the run ends with both stores open and holding entries
  that were never flushed.
\<close>

theorem cleanup_skipped_on_fatal_error:
  "isl (lostphotosfound env_fetch_failure fresh) \<and>
   fst (projl (lostphotosfound env_fetch_failure fresh)) = MsgIdFetchFailure \<and>
   \<not> is_closed (s_index (final_state (lostphotosfound env_fetch_failure fresh))) \<and>
   \<not> synced (s_index (final_state (lostphotosfound env_fetch_failure fresh))) \<and>
   \<not> is_closed (s_hashes (final_state (lostphotosfound env_fetch_failure fresh))) \<and>
   \<not> synced (s_hashes (final_state (lostphotosfound env_fetch_failure fresh))) \<and>
   entries (s_index (final_state (lostphotosfound env_fetch_failure fresh))) ''101'' = Some ''101''"
  unfolding run_fetch_failure
  by (simp add: final_state_def fresh_def open_shelf_def shelf_set_def)

subsection \<open>C3: the search criteria\<close>

text \<open>
  C3, as amended: for a non-empty filter string of the caller, the criteria sent to the
  mailbox session are the caller's string, verbatim, then one space, then the
  image-extension filter: the caller's string comes first.
\<close>

theorem search_prepended:
  "s_search st \<noteq> [] \<Longrightarrow>
     criteria e st = s_search st @ '' '' @ image_filter e \<and>
     filter_messages e st =
       (case gmail_search e (s_search st @ '' '' @ image_filter e) of
          None \<Rightarrow> Inl (SearchFailure, st)
        | Some messages \<Rightarrow> Inr messages)"
  by (simp add: criteria_def filter_messages_def)

theorem search_prepended_witness:
  "s_search (fresh\<lparr>s_search := ''from:bob''\<rparr>) \<noteq> [] \<and>
   criteria env_text (fresh\<lparr>s_search := ''from:bob''\<rparr>) =
     ''from:bob has:attachment filename:(png OR jpg)'' \<and>
   filter_messages env_text (fresh\<lparr>s_search := ''from:bob''\<rparr>) = Inr [0]"
  using search_prepended [where e=env_text and st="fresh\<lparr>s_search := ''from:bob''\<rparr>"]
  by (simp add: image_filter_def mimelist_def py_remove_def ex_defs)

text \<open>
  C3 as stated fails: with the filter \<open>from:bob\<close> the criteria do not start with the
  image-extension filter, and are not that filter followed by the caller's string.
\<close>

theorem search_not_appended:
  "image_filter env_text = ''has:attachment filename:(png OR jpg)'' \<and>
   \<not> prefix (image_filter env_text) (criteria env_text (fresh\<lparr>s_search := ''from:bob''\<rparr>)) \<and>
   criteria env_text (fresh\<lparr>s_search := ''from:bob''\<rparr>) \<noteq>
     image_filter env_text @ '' '' @ ''from:bob'' \<and>
   criteria env_text (fresh\<lparr>s_search := ''from:bob''\<rparr>) \<noteq>
     image_filter env_text @ ''from:bob''"
  by (simp add: criteria_def image_filter_def mimelist_def py_remove_def ex_defs)

subsection \<open>C4: sanitizing the name\<close>

text \<open>
  C4, as amended: sanitizing removes exactly the characters of the fixed set
  \<open>!"#$&'*+/;<>?[\]^`{|}~\<close> and keeps every other character, in order; the parentheses
  are not in the set. The name \<open>My "Photo"! (2020).jpg\<close> loses \<open>"\<close> and \<open>!\<close> only and
  becomes \<open>My Photo (2020).jpg\<close>. The sanitized name, after the date prefix, is the file
  name under the destination directory.
\<close>

theorem sanitize_strips_exactly_punct:
  "sanitize n = filter (\<lambda>c. c \<notin> set punct) n \<and>
   set punct = {CHR ''!'', CHR 0x22, CHR ''#'', CHR ''$'', CHR ''&'', CHR 0x27, CHR ''*'',
      CHR ''+'', CHR ''/'', CHR '';'', CHR ''<'', CHR ''>'', CHR ''?'', CHR ''['', CHR 0x5C,
      CHR '']'', CHR ''^'', CHR 0x60, CHR ''{'', CHR ''|'', CHR ''}'', CHR ''~''} \<and>
   (resolve_filename e st part = Inr (n, st1) \<and> header_date e mail = Some d \<longrightarrow>
      (\<exists>st2. destination e st part mail sender =
                Inr (path_join (savepath e st1 sender) (d @ sanitize n), st2)))"
  using sanitize_filter [of n] set_punct
    destination_name [where e=e and st=st and part=part and n=n and ?st1.0=st1 and mail=mail
      and d=d and sender=sender]
  by blast

theorem sanitize_strips_exactly_punct_witness:
  "sanitize photo_name = ''My Photo (2020).jpg'' \<and>
   resolve_filename env_text fresh (image_part photo_name (Some ''Q'')) =
     Inr (photo_name, fresh\<lparr>seq := Some 0\<rparr>) \<and>
   header_date env_text text_mail = Some ''2012-10-28_19-15-22_'' \<and>
   (\<exists>st2. destination env_text fresh (image_part photo_name (Some ''Q'')) text_mail
            ''bob@example.com'' =
          Inr (''/home/u/LostPhotosFound/me@gmail.com/2012-10-28_19-15-22_My Photo (2020).jpg'',
               st2))"
proof -
  have r: "resolve_filename env_text fresh (image_part photo_name (Some ''Q'')) =
           Inr (photo_name, fresh\<lparr>seq := Some 0\<rparr>)"
    by (simp add: resolve_filename_def ex_defs photo_name_def)
  have d: "header_date env_text text_mail = Some ''2012-10-28_19-15-22_''"
    by (simp add: header_date_def ex_defs date_str)
  have p: "path_join (savepath env_text (fresh\<lparr>seq := Some 0\<rparr>) ''bob@example.com'')
             (''2012-10-28_19-15-22_'' @ ''My Photo (2020).jpg'') =
           ''/home/u/LostPhotosFound/me@gmail.com/2012-10-28_19-15-22_My Photo (2020).jpg''"
    by (simp add: savepath_def path_join_def ex_defs)
  from r d sanitize_strips_exactly_punct
      [where n=photo_name and e=env_text and st=fresh
         and part="image_part photo_name (Some ''Q'')" and ?st1.0="fresh\<lparr>seq := Some 0\<rparr>"
         and mail=text_mail and d="''2012-10-28_19-15-22_''" and sender="''bob@example.com''"]
  have "\<exists>st2. destination env_text fresh (image_part photo_name (Some ''Q'')) text_mail
            ''bob@example.com'' =
          Inr (path_join (savepath env_text (fresh\<lparr>seq := Some 0\<rparr>) ''bob@example.com'')
                 (''2012-10-28_19-15-22_'' @ sanitize photo_name), st2)"
    by blast
  then have e: "\<exists>st2. destination env_text fresh (image_part photo_name (Some ''Q'')) text_mail
            ''bob@example.com'' =
          Inr (''/home/u/LostPhotosFound/me@gmail.com/2012-10-28_19-15-22_My Photo (2020).jpg'',
               st2)"
    by (simp only: sanitize_photo_name p)
  show ?thesis
    by (intro conjI sanitize_photo_name r d e)
qed

text \<open>
  C4 as stated fails: both parentheses survive in the sanitized form of
  \<open>My "Photo"! (2020).jpg\<close>.
\<close>

theorem parentheses_not_stripped:
  "CHR ''('' \<in> set (sanitize photo_name) \<and>
   CHR '')'' \<in> set (sanitize photo_name) \<and>
   CHR 0x22 \<notin> set (sanitize photo_name) \<and>
   CHR ''!'' \<notin> set (sanitize photo_name) \<and>
   sanitize photo_name \<noteq> ''My Photo 2020.jpg''"
  by (simp add: sanitize_photo_name)

subsection \<open>C5: the disposition does not decide whether an image part is saved\<close>

text \<open>
  C5: let a multipart message with a From header be handled, and let \<open>p\<close> be a part of
  its walk that is not a container and whose main type is \<open>image\<close> (its content type, as
  \<open>get_content_type()\<close> always returns it, has the form type/subtype). Then the loop
  over the walk, once the parts before \<open>p\<close> are done without an exception, calls
  \<open>_save_part\<close> on \<open>p\<close> in the state they left, goes on with the parts after \<open>p\<close>
  from the state the call returns, and records the message at the end. The call is the
  one that would be made had \<open>p\<close> any other Content-Disposition header \<open>d\<close>, absent,
  inline or attachment: the header is not read.
\<close>

theorem every_image_part_goes_to_save_part:
  assumes "get_content_maintype mail = ''multipart''"
    and "from_hdr (hdr mail) = Some f"
    and "p \<in> set (walk mail)"
    and "get_content_maintype p = ''image''"
    and "CHR ''/'' \<in> set (content_type (hdr p))"
  shows "get_content_maintype p \<noteq> ''multipart'' \<and>
    (\<exists>pre post. walk mail = pre @ p # post \<and>
      handle_mail e st msgid mail =
        (case walk_loop e st mail (sender_of e f) pre of
           Inl err \<Rightarrow> Inl err
         | Inr s \<Rightarrow>
             (case save_part e s (Part ((hdr p)\<lparr>content_disposition := d\<rparr>) (subparts p))
                     mail (sender_of e f) of
                Inl err \<Rightarrow> Inl err
              | Inr s' \<Rightarrow>
                  (case walk_loop e s' mail (sender_of e f) post of
                     Inl err \<Rightarrow> Inl err
                   | Inr s'' \<Rightarrow>
                       Inr (s''\<lparr>s_index := shelf_set (s_index s'') msgid msgid\<rparr>)))))"
proof -
  let ?sender = "sender_of e f"
  from assms(3) obtain pre post where sp: "walk mail = pre @ p # post"
    by (auto dest: split_list)
  have call: "handle_part e s mail ?sender p =
      save_part e s (Part ((hdr p)\<lparr>content_disposition := d\<rparr>) (subparts p)) mail ?sender"
    for s
    using handle_part_image [OF assms(4) assms(5), of e s mail ?sender]
      save_part_ignores_disposition [where e=e and st=s and h="hdr p" and d=d
        and ps="subparts p" and mail=mail and sender="?sender"]
    by simp
  have "handle_mail e st msgid mail =
      (case walk_loop e st mail ?sender (pre @ p # post) of
         Inl err \<Rightarrow> Inl err
       | Inr s \<Rightarrow> Inr (s\<lparr>s_index := shelf_set (s_index s) msgid msgid\<rparr>))"
    using assms(1) assms(2) sp by (simp add: handle_mail_def sender_of_def Let_def)
  then have "handle_mail e st msgid mail =
      (case walk_loop e st mail ?sender pre of
         Inl err \<Rightarrow> Inl err
       | Inr s \<Rightarrow>
           (case save_part e s (Part ((hdr p)\<lparr>content_disposition := d\<rparr>) (subparts p))
                   mail ?sender of
              Inl err \<Rightarrow> Inl err
            | Inr s' \<Rightarrow>
                (case walk_loop e s' mail ?sender post of
                   Inl err \<Rightarrow> Inl err
                 | Inr s'' \<Rightarrow>
                     Inr (s''\<lparr>s_index := shelf_set (s_index s'') msgid msgid\<rparr>))))"
    by (simp add: walk_loop_append call split: sum.splits)
  moreover have "get_content_maintype p \<noteq> ''multipart''"
    using assms(4) by simp
  ultimately show ?thesis using sp by blast
qed

text \<open>
  The inline PNG, nested in a \<open>multipart/related\<close> container of a message and without
  a Content-Disposition header, is in the walk; handling the message writes it under the
  name of its content type and records the message.
\<close>

theorem every_image_part_goes_to_save_part_witness:
  "get_content_maintype nested_mail = ''multipart'' \<and>
   from_hdr (hdr nested_mail) = Some ''bob@example.com'' \<and>
   inline_png \<in> set (walk nested_mail) \<and>
   get_content_maintype inline_png = ''image'' \<and>
   CHR ''/'' \<in> set (content_type (hdr inline_png)) \<and>
   content_disposition (hdr inline_png) = None \<and>
   (\<exists>pre post. walk nested_mail = pre @ inline_png # post \<and>
      handle_mail env_text fresh ''101'' nested_mail =
        (case walk_loop env_text fresh nested_mail (sender_of env_text ''bob@example.com'') pre of
           Inl err \<Rightarrow> Inl err
         | Inr s \<Rightarrow>
             (case save_part env_text s
                     (Part ((hdr inline_png)\<lparr>content_disposition := Some ''inline''\<rparr>)
                        (subparts inline_png))
                     nested_mail (sender_of env_text ''bob@example.com'') of
                Inl err \<Rightarrow> Inl err
              | Inr s' \<Rightarrow>
                  (case walk_loop env_text s' nested_mail
                          (sender_of env_text ''bob@example.com'') post of
                     Inl err \<Rightarrow> Inl err
                   | Inr s'' \<Rightarrow>
                       Inr (s''\<lparr>s_index := shelf_set (s_index s'') ''101'' ''101''\<rparr>))))) \<and>
   handle_mail env_text fresh ''101'' nested_mail =
     Inr (fresh\<lparr>seq := Some 0,
                s_index := shelf_set open_shelf ''101'' ''101'',
                s_hashes := shelf_set open_shelf ''PNG'' ''PNG'',
                files := [saved_pic \<mapsto> ''PNG''],
                dirs := {account_dir}\<rparr>)"
proof -
  have m: "get_content_maintype nested_mail = ''multipart''"
    and f: "from_hdr (hdr nested_mail) = Some ''bob@example.com''"
    and i: "get_content_maintype inline_png = ''image''"
    and s: "CHR ''/'' \<in> set (content_type (hdr inline_png))"
    and n: "content_disposition (hdr inline_png) = None"
    by (simp_all add: get_content_maintype_def ex_defs)
  have w1: "related [inline_png] \<in> set (walk nested_mail)"
    by (rule walk_subparts [OF walk_self]) (simp add: nested_mail_def multipart_mail_def)
  have w: "inline_png \<in> set (walk nested_mail)"
    by (rule walk_subparts [OF w1]) (simp add: related_def)
  have r: "handle_mail env_text fresh ''101'' nested_mail =
     Inr (fresh\<lparr>seq := Some 0,
                s_index := shelf_set open_shelf ''101'' ''101'',
                s_hashes := shelf_set open_shelf ''PNG'' ''PNG'',
                files := [saved_pic \<mapsto> ''PNG''],
                dirs := {account_dir}\<rparr>)"
    by (simp add: model_defs ex_defs date_str sanitize_filter punct_def)
  note t = every_image_part_goes_to_save_part [OF m f w i s, where e=env_text and st=fresh
      and msgid="''101''" and d="Some ''inline''", THEN conjunct2]
  from m f w i s n t r show ?thesis by (intro conjI)
qed

subsection \<open>C6: a destination that already exists\<close>

text \<open>
  C6: when the destination path that \<open>_save_part\<close> computes is already a file, the call
  returns without an error, whatever the payload is and also when decoding it would
  raise; the files, the hash store and the index are as they were.
\<close>

theorem existing_destination_skipped:
  assumes "destination e st part mail sender = Inr (saved, st2)"
    and "saved \<in> dom (files st)"
  shows "save_part e st (Part ((hdr part)\<lparr>payload := pl\<rparr>) (subparts part)) mail sender = Inr st2 \<and>
         files st2 = files st \<and> s_hashes st2 = s_hashes st \<and> s_index st2 = s_index st"
proof -
  from assms(1) destination_state [where e=e and st=st and part=part and mail=mail and sender=sender]
  obtain k d where st2: "st2 = st\<lparr>seq := k, dirs := d\<rparr>" by auto
  have "destination e st (Part ((hdr part)\<lparr>payload := pl\<rparr>) (subparts part)) mail sender =
        Inr (saved, st2)"
    using assms(1) destination_ignores_payload [where e=e and st=st and h="hdr part" and pl=pl and ps="subparts part" and mail=mail and sender=sender]
    by simp
  then show ?thesis
    using assms(2) st2 by (simp add: save_part_def store_payload_def)
qed

theorem existing_destination_skipped_witness:
  "destination env_text with_old_file (image_part ''a.jpg'' (Some ''Q'')) text_mail
       ''bob@example.com'' =
     Inr (saved_a, with_old_file\<lparr>seq := Some 0\<rparr>) \<and>
   saved_a \<in> dom (files with_old_file) \<and>
   save_part env_text with_old_file (image_part ''a.jpg'' None) text_mail ''bob@example.com'' =
     Inr (with_old_file\<lparr>seq := Some 0\<rparr>) \<and>
   files (with_old_file\<lparr>seq := Some 0\<rparr>) saved_a = Some ''old''"
proof -
  have d: "destination env_text with_old_file (image_part ''a.jpg'' (Some ''Q'')) text_mail
       ''bob@example.com'' = Inr (saved_a, with_old_file\<lparr>seq := Some 0\<rparr>)"
    by (simp add: model_defs ex_defs date_str sanitize_filter punct_def)
  have e: "saved_a \<in> dom (files with_old_file)"
    by (simp add: with_old_file_def)
  have p: "Part ((hdr (image_part ''a.jpg'' (Some ''Q'')))\<lparr>payload := None\<rparr>)
             (subparts (image_part ''a.jpg'' (Some ''Q''))) = image_part ''a.jpg'' None"
    by (simp add: image_part_def)
  have s: "save_part env_text with_old_file (image_part ''a.jpg'' None) text_mail
             ''bob@example.com'' = Inr (with_old_file\<lparr>seq := Some 0\<rparr>)"
    using existing_destination_skipped [OF d e, where pl=None, unfolded p]
    by (rule conjunct1)
  have f: "files (with_old_file\<lparr>seq := Some 0\<rparr>) saved_a = Some ''old''"
    by (simp add: with_old_file_def)
  show ?thesis
    by (intro conjI d e s f)
qed

subsection \<open>C7: identical payloads\<close>




subsection \<open>C8: the fallbacks of the file name\<close>

text \<open>
  C8 describes three steps: the declared name; when there is none, the \<open>name\<close> parameter
  of the content type; when that is unusable too, a name \<open>attachment-NNNNNN.data\<close>
  synthesized from the counter. \<open>get_filename()\<close> makes the first two steps. The third
  is never made: for a part without any name (the decoder leaving \<open>__unnamed__\<close> as it
  is) the result is the placeholder \<open>__unnamed__\<close> of line 161, and the counter, created
  at zero, stays where it is.
\<close>

theorem absent_filename_named_unnamed:
  assumes "filename (hdr part) = None"
    and "charset_decoder e ''__unnamed__'' = ''__unnamed__''"
  shows "resolve_filename e st part =
           Inr (''__unnamed__'', if seq st = None then st\<lparr>seq := Some 0\<rparr> else st)"
  using assms by (simp add: resolve_filename_def)

text \<open>The PNG that has no name anywhere is called \<open>__unnamed__\<close>.\<close>

theorem absent_filename_named_unnamed_witness:
  "filename (hdr nameless_png) = None \<and>
   charset_decoder env_text ''__unnamed__'' = ''__unnamed__'' \<and>
   content_type_header (hdr nameless_png) = Some ''image/png'' \<and>
   content_disposition (hdr nameless_png) = None \<and>
   resolve_filename env_text fresh nameless_png = Inr (''__unnamed__'', fresh\<lparr>seq := Some 0\<rparr>)"
proof -
  have f: "filename (hdr nameless_png) = None"
    and c: "charset_decoder env_text ''__unnamed__'' = ''__unnamed__''"
    and h: "content_type_header (hdr nameless_png) = Some ''image/png''"
    and d: "content_disposition (hdr nameless_png) = None"
    by (simp_all add: ex_defs)
  have s: "(if seq fresh = None then fresh\<lparr>seq := Some 0\<rparr> else fresh) = fresh\<lparr>seq := Some 0\<rparr>"
    by (simp add: fresh_def)
  have r: "resolve_filename env_text fresh nameless_png =
      Inr (''__unnamed__'', fresh\<lparr>seq := Some 0\<rparr>)"
    using absent_filename_named_unnamed [OF f c, where st=fresh] by (simp only: s)
  from f c h d r show ?thesis by (intro conjI)
qed

text \<open>
  The synthesized name is out of reach: \<open>header_filename[0][0]\<close> of a string is a
  one-character string, never empty and never \<open>None\<close>, so no call advances the counter.
  An empty decoded name, the case the test of line 168 looks for, raises at
  \<open>header_filename[0]\<close> instead.
\<close>

lemma synthesized_name_unreachable:
  assumes "resolve_filename e st part = Inr (n, st')"
  shows "seq st' = Some (case seq st of None \<Rightarrow> 0 | Some k \<Rightarrow> k)"
  using counter_never_advances [OF assms] by (auto split: option.splits)

lemma empty_name_raises:
  "resolve_filename env_text fresh empty_name_png = Inl (IndexError, fresh\<lparr>seq := Some 0\<rparr>)"
  by (simp add: resolve_filename_def ex_defs)

lemma nameless_png_file:
  "files (final_state (save_part env_text fresh nameless_png text_mail ''bob@example.com''))
     ''/home/u/LostPhotosFound/me@gmail.com/2012-10-28_19-15-22___unnamed__'' = Some ''PNG''"
  by (simp add: model_defs ex_defs date_str sanitize_filter punct_def)

subsection \<open>C9: existing files are left alone\<close>

text \<open>
  C9: a file that exists when \<open>_save_part\<close> is called, at the destination path or at any
  other, has the same bytes when the call ends, whether it returns or raises: the call
  creates, truncates, writes and removes only at a path where there was no file.
\<close>

theorem existing_files_untouched:
  assumes "files st p = Some c"
  shows "files (final_state (save_part e st part mail sender)) p = Some c"
proof (cases "destination e st part mail sender")
  case (Inl a)
  then show ?thesis
    using assms destination_state [where e=e and st=st and part=part and mail=mail and sender=sender]
    by (auto simp: save_part_def final_state_def)
next
  case (Inr b)
  obtain saved st2 where b: "b = (saved, st2)" by (cases b)
  with Inr destination_state [where e=e and st=st and part=part and mail=mail and sender=sender]
  have "files st2 p = Some c" using assms by auto
  then have "files (final_state (store_payload e st2 part saved)) p = Some c"
    by (rule store_payload_keeps)
  then show ?thesis using Inr b by (simp add: save_part_def)
qed

theorem existing_files_untouched_witness:
  "files with_old_file saved_a = Some ''old'' \<and>
   files (final_state (save_part env_text with_old_file (image_part ''a.jpg'' (Some ''Q''))
            text_mail ''bob@example.com'')) saved_a = Some ''old'' \<and>
   files (final_state (save_part env_text with_old_file (image_part ''b.jpg'' (Some ''Q''))
            text_mail ''bob@example.com'')) saved_a = Some ''old'' \<and>
   isl (save_part env_text with_old_file (image_part ''b.jpg'' None)
            text_mail ''bob@example.com'') \<and>
   files (final_state (save_part env_text with_old_file (image_part ''b.jpg'' None)
            text_mail ''bob@example.com'')) saved_a = Some ''old''"
proof -
  have o: "files with_old_file saved_a = Some ''old''"
    by (simp add: with_old_file_def)
  have r: "isl (save_part env_text with_old_file (image_part ''b.jpg'' None)
            text_mail ''bob@example.com'')"
    by (simp add: model_defs ex_defs date_str sanitize_filter punct_def)
  show ?thesis
    using existing_files_untouched [OF o, where e=env_text and mail=text_mail
        and sender="''bob@example.com''" and part="image_part ''a.jpg'' (Some ''Q'')"]
      existing_files_untouched [OF o, where e=env_text and mail=text_mail
        and sender="''bob@example.com''" and part="image_part ''b.jpg'' (Some ''Q'')"]
      existing_files_untouched [OF o, where e=env_text and mail=text_mail
        and sender="''bob@example.com''" and part="image_part ''b.jpg'' None"]
    by (simp add: o r)
qed

subsection \<open>C10: a declared name that contains \<open>None\<close>\<close>

text \<open>
  C10, as amended: when the decoded declared name contains \<open>None\<close> anywhere, the declared
  name is not used. The name is then the text of the Content-Type header that follows
  its last \<open>name=\<close>, up to the end of the header and with the double quotes removed:
  a text that follows a \<open>name=\<close> and contains no \<open>name=\<close>. That is the value of the
  \<open>name\<close> parameter when the parameter is the last thing in the header, the value
  followed by the later parameters otherwise, and the whole header value when the header
  has no \<open>name=\<close>. Without a Content-Type header the call raises.
\<close>

theorem none_in_name_uses_content_type:
  assumes "filename (hdr part) = Some declared"
    and "py_in ''None'' (charset_decoder e declared)"
  shows "resolve_filename e st part =
           (case content_type_header (hdr part) of
              None \<Rightarrow> Inl (AttributeError, if seq st = None then st\<lparr>seq := Some 0\<rparr> else st)
            | Some ct \<Rightarrow>
                Inr (py_remove (CHR 0x22) (last (py_split ct ''name='')),
                     if seq st = None then st\<lparr>seq := Some 0\<rparr> else st)) \<and>
         (\<forall>ct. content_type_header (hdr part) = Some ct \<longrightarrow>
            (\<exists>x. ct = x @ last (py_split ct ''name='') \<and> (x = [] \<or> suffix ''name='' x)) \<and>
            \<not> py_in ''name='' (last (py_split ct ''name=''))) \<and>
         (\<forall>pre v. content_type_header (hdr part) = Some (pre @ ''name='' @ v) \<and>
                  \<not> py_in ''name='' v \<longrightarrow>
            resolve_filename e st part =
              Inr (py_remove (CHR 0x22) v,
                   if seq st = None then st\<lparr>seq := Some 0\<rparr> else st)) \<and>
         (\<forall>ct. content_type_header (hdr part) = Some ct \<and> \<not> py_in ''name='' ct \<longrightarrow>
            resolve_filename e st part =
              Inr (py_remove (CHR 0x22) ct,
                   if seq st = None then st\<lparr>seq := Some 0\<rparr> else st))"
proof -
  have a: "\<exists>x. ct = x @ last (py_split ct ''name='') \<and> (x = [] \<or> suffix ''name='' x)" for ct
    using split_from_last [where acc="[]" and s=ct and sep="''name=''"]
    by (simp add: py_split_def)
  have b: "\<not> py_in ''name='' (last (py_split ct ''name=''))" for ct
    using split_from_last_no_sep [where sep="''name=''" and acc="[]" and s=ct]
    by (simp add: py_split_def py_in_iff)
  have c: "resolve_filename e st part =
           (case content_type_header (hdr part) of
              None \<Rightarrow> Inl (AttributeError, if seq st = None then st\<lparr>seq := Some 0\<rparr> else st)
            | Some ct \<Rightarrow>
                Inr (py_remove (CHR 0x22) (last (py_split ct ''name='')),
                     if seq st = None then st\<lparr>seq := Some 0\<rparr> else st))"
    using assms by (simp add: resolve_filename_def Let_def split: option.splits)
  have d: "resolve_filename e st part =
              Inr (py_remove (CHR 0x22) v,
                   if seq st = None then st\<lparr>seq := Some 0\<rparr> else st)"
    if "content_type_header (hdr part) = Some (pre @ ''name='' @ v)" "\<not> py_in ''name='' v"
    for pre v
    using c that(1) last_name_piece [OF that(2), of pre] by (simp only: option.case)
  have e: "resolve_filename e st part =
              Inr (py_remove (CHR 0x22) ct,
                   if seq st = None then st\<lparr>seq := Some 0\<rparr> else st)"
    if "content_type_header (hdr part) = Some ct" "\<not> py_in ''name='' ct" for ct
  proof -
    have "\<not> sublist ''name='' ct" using that(2) py_in_iff by blast
    then have "last (py_split ct ''name='') = ct"
      using split_from_no_sep [of "''name=''" ct "[]"] by (simp add: py_split_def)
    then show ?thesis using c that(1) by (simp only: option.case)
  qed
  from a b c d e show ?thesis by blast
qed

text \<open>
  The JPEG attached as \<open>None-beach.jpg\<close> with the content type \<open>image/jpeg;
  name="beach.jpg"\<close> is named \<open>beach.jpg\<close>.
\<close>

theorem none_in_name_uses_content_type_witness:
  "filename (hdr none_beach) = Some ''None-beach.jpg'' \<and>
   py_in ''None'' (charset_decoder env_text ''None-beach.jpg'') \<and>
   content_type_header (hdr none_beach) =
     Some (''image/jpeg; '' @ ''name='' @ quoted ''beach.jpg'') \<and>
   \<not> py_in ''name='' (quoted ''beach.jpg'') \<and>
   resolve_filename env_text fresh none_beach = Inr (''beach.jpg'', fresh\<lparr>seq := Some 0\<rparr>)"
proof -
  have f: "filename (hdr none_beach) = Some ''None-beach.jpg''"
    and p: "py_in ''None'' (charset_decoder env_text ''None-beach.jpg'')"
    by (simp_all add: ex_defs)
  have h: "content_type_header (hdr none_beach) =
      Some (''image/jpeg; '' @ ''name='' @ quoted ''beach.jpg'')"
    by (simp add: none_beach_def none_beach_with_def)
  have n: "\<not> py_in ''name='' (quoted ''beach.jpg'')"
    by (simp add: quoted_def)
  have q: "py_remove (CHR 0x22) (quoted ''beach.jpg'') = ''beach.jpg''"
    by (simp add: quoted_def py_remove_def)
  have s: "(if seq fresh = None then fresh\<lparr>seq := Some 0\<rparr> else fresh) = fresh\<lparr>seq := Some 0\<rparr>"
    by (simp add: fresh_def)
  from none_in_name_uses_content_type [OF f p, where st=fresh] h n
  have "resolve_filename env_text fresh none_beach =
      Inr (py_remove (CHR 0x22) (quoted ''beach.jpg''),
           if seq fresh = None then fresh\<lparr>seq := Some 0\<rparr> else fresh)"
    by blast
  then have r: "resolve_filename env_text fresh none_beach =
      Inr (''beach.jpg'', fresh\<lparr>seq := Some 0\<rparr>)"
    by (simp only: q s)
  from f p h n r show ?thesis by (intro conjI)
qed

text \<open>
  C10 as stated fails. The JPEG attached as \<open>None-beach.jpg\<close> whose content type is
  \<open>image/jpeg\<close> has no \<open>name\<close> parameter, and is named \<open>image/jpeg\<close>; with the content
  type \<open>image/jpeg; name="beach.jpg"; x-unix-mode=0644\<close> the name is not the value
  \<open>beach.jpg\<close> of the parameter but \<open>beach.jpg; x-unix-mode=0644\<close>.
\<close>

theorem none_in_name_without_name_parameter:
  "filename (hdr none_beach_plain) = Some ''None-beach.jpg'' \<and>
   py_in ''None'' (charset_decoder env_text ''None-beach.jpg'') \<and>
   content_type_header (hdr none_beach_plain) = Some ''image/jpeg'' \<and>
   \<not> py_in ''name='' ''image/jpeg'' \<and>
   resolve_filename env_text fresh none_beach_plain =
     Inr (''image/jpeg'', fresh\<lparr>seq := Some 0\<rparr>) \<and>
   resolve_filename env_text fresh none_beach_trailing =
     Inr (''beach.jpg; x-unix-mode=0644'', fresh\<lparr>seq := Some 0\<rparr>) \<and>
   ''beach.jpg; x-unix-mode=0644'' \<noteq> ''beach.jpg''"
  by (simp add: resolve_filename_def py_split_def py_remove_def ex_defs)


end
